theory Spec2Isabelle
  imports Complex_Main "HOL-Library.Multiset"
begin

section \<open>Data model\<close>

text \<open>
  The detector works on the detection array returned by the AprilTag 2 decoder. A detection
  (\<open>apriltag_detection_t\<close>) carries the decoded tag id, a C \<open>int\<close>, and the homography
  \<open>H\<close>; the homography is a matrix type of the decoder library and stays a type parameter.
  Ids are only compared, never computed with, so they are modelled as \<open>int\<close>.
  C \<open>double\<close> values are modelled as \<open>real\<close>: rounding is not part of the model.
\<close>

record 'h apriltag_detection_t =
  id_tag :: int
  H :: 'h

section \<open>The detection array (zarray)\<close>

text \<open>
  \<open>zarray_t\<close> belongs to the decoder library. The array of detections holds pointers to the
  detections; it is modelled as the list of the detections pointed to. \<open>zarray_sort\<close> hands
  the comparator to the C library sort; it is modelled as an insertion sort driven by the
  comparator's sign (elements that compare equal keep their order).
  \<open>zarray_remove_index\<close> with \<open>shuffle = 0\<close> closes the gap and keeps the order of the
  remaining elements.
\<close>

fun zarray_insert :: "('a \<Rightarrow> 'a \<Rightarrow> int) \<Rightarrow> 'a \<Rightarrow> 'a list \<Rightarrow> 'a list" where
  "zarray_insert compar x [] = [x]"
| "zarray_insert compar x (y # ys) =
     (if compar x y \<le> 0 then x # y # ys else y # zarray_insert compar x ys)"

definition zarray_sort :: "('a \<Rightarrow> 'a \<Rightarrow> int) \<Rightarrow> 'a list \<Rightarrow> 'a list" where
  "zarray_sort compar za = foldr (zarray_insert compar) za []"

definition zarray_size :: "'a list \<Rightarrow> int" where
  "zarray_size za = int (length za)"

definition zarray_get :: "'a list \<Rightarrow> nat \<Rightarrow> 'a" where
  "zarray_get za idx = za ! idx"

definition zarray_remove_index :: "'a list \<Rightarrow> nat \<Rightarrow> 'a list" where
  "zarray_remove_index za idx = take idx za @ drop (Suc idx) za"

section \<open>Duplicate removal\<close>

text \<open>
  The sort calls the comparator with the addresses of two slots of the array. A slot holds a
  pointer to a detection, so such an address is an \<open>apriltag_detection_t**\<close>;
  \<open>idComparison\<close> casts it to \<open>apriltag_detection_t*\<close> and reads the member \<open>id\<close> through
  the cast. What it reads there is not the id of the detection the slot points to but bits of
  the memory at the slot, that is, of the pointers stored in the array. These bits depend on
  where the detections were allocated and cannot be computed from the detections. They are
  the parameter \<open>slot_bits\<close> of the model: the \<open>int\<close> that the comparator reads when it is
  handed the slot of a detection. Nothing relates \<open>slot_bits\<close> to \<open>id_tag\<close>, so the array
  that the sort leaves is ordered by \<open>slot_bits\<close> and in general not by id.
\<close>

definition idComparison ::
  "('h apriltag_detection_t \<Rightarrow> int) \<Rightarrow> 'h apriltag_detection_t \<Rightarrow> 'h apriltag_detection_t \<Rightarrow> int" where
  "idComparison slot_bits first second =
     (let id1 = slot_bits first; id2 = slot_bits second
      in if id1 < id2 then -1 else (if id1 = id2 then 0 else 1))"

text \<open>
  The \<open>while (true)\<close> scan of \<open>removeDuplicates\<close>. The state is the array, the cursor
  \<open>count\<close> (it starts at 0 and is only incremented, hence a \<open>nat\<close>; the comparisons with
  \<open>zarray_size(detections_) - 1\<close> are made in \<open>int\<close>, as in C, where the right-hand side is
  \<open>-1\<close> for the empty array) and the flag \<open>duplicate_detected\<close>. Both reads of the array are
  guarded by the size tests, so they are in range. Not returning is the value \<open>None\<close>.
  The warning printed when a run of duplicates ends is log output and is not modelled.
\<close>

partial_function (option) removeDuplicates_loop ::
  "'h apriltag_detection_t list \<Rightarrow> nat \<Rightarrow> bool \<Rightarrow> 'h apriltag_detection_t list option" where
  "removeDuplicates_loop detections count_n duplicate_detected =
     (if int count_n > zarray_size detections - 1 then Some detections
      else
        let id_current = id_tag (zarray_get detections count_n);
            id_next = (if int count_n < zarray_size detections - 1
                       then id_tag (zarray_get detections (count_n + 1)) else -1)
        in if id_current = id_next \<or> (id_current \<noteq> id_next \<and> duplicate_detected)
           then removeDuplicates_loop (zarray_remove_index detections count_n) count_n
                  (if id_current \<noteq> id_next then False else True)
           else removeDuplicates_loop detections (count_n + 1) duplicate_detected)"

definition removeDuplicates ::
  "('h apriltag_detection_t \<Rightarrow> int) \<Rightarrow> 'h apriltag_detection_t list
     \<Rightarrow> 'h apriltag_detection_t list option" where
  "removeDuplicates slot_bits detections =
     removeDuplicates_loop (zarray_sort (idComparison slot_bits) detections) 0 False"

subsection \<open>Auxiliary notions for the analysis of the scan\<close>

text \<open>
  \<open>scan\<close> is the scan seen from the cursor: it returns what the loop keeps of the part of
  the array that lies at and after the cursor. The other notions serve the analysis of the
  scan on an array that is sorted by id: \<open>kept\<close> describes the survivors of such an array,
  \<open>occurs_once ds d\<close> says that the id of \<open>d\<close> occurs exactly once in \<open>ds\<close>,
  \<open>sentinel_collides\<close> holds when the default \<open>id_next = -1\<close> meets a real id at the end of
  the sorted array (the id \<open>-1\<close> occurs exactly once and no id is larger), and
  \<open>survives ds d\<close> is the exact condition under which a detection is then returned.
\<close>

fun scan :: "bool \<Rightarrow> 'h apriltag_detection_t list \<Rightarrow> 'h apriltag_detection_t list" where
  "scan dup [] = []"
| "scan dup [x] = (if id_tag x = -1 \<or> dup then [] else [x])"
| "scan dup (x # y # r) =
     (if id_tag x = id_tag y then scan True (y # r)
      else if dup then scan False (y # r)
      else x # scan False (y # r))"

definition kept ::
  "'h apriltag_detection_t list \<Rightarrow> bool \<Rightarrow> 'h apriltag_detection_t \<Rightarrow> bool" where
  "kept xs dup d \<longleftrightarrow>
     count_list (map id_tag xs) (id_tag d) = 1 \<and> \<not> (dup \<and> id_tag d = id_tag (hd xs))
     \<and> \<not> (id_tag d = -1 \<and> id_tag (last xs) = -1)"

definition occurs_once :: "'h apriltag_detection_t list \<Rightarrow> 'h apriltag_detection_t \<Rightarrow> bool" where
  "occurs_once ds d \<longleftrightarrow> count_list (map id_tag ds) (id_tag d) = 1"

definition sentinel_collides :: "'h apriltag_detection_t list \<Rightarrow> bool" where
  "sentinel_collides ds \<longleftrightarrow>
     count_list (map id_tag ds) (-1) = 1 \<and> (\<forall>e\<in>set ds. id_tag e \<le> -1)"

definition survives :: "'h apriltag_detection_t list \<Rightarrow> 'h apriltag_detection_t \<Rightarrow> bool" where
  "survives ds d \<longleftrightarrow> occurs_once ds d \<and> \<not> (id_tag d = -1 \<and> (\<forall>e\<in>set ds. id_tag e \<le> -1))"

section \<open>Geometry of the tag corners\<close>

type_synonym Point2d = "real \<times> real"
type_synonym Point3d = "real \<times> real \<times> real"
type_synonym Vec4d = "real \<times> real \<times> real \<times> real"
type_synonym Matx33d = "Point3d \<times> Point3d \<times> Point3d"
type_synonym Matx34d = "Vec4d \<times> Vec4d \<times> Vec4d"
type_synonym Matx44d = "Vec4d \<times> Vec4d \<times> Vec4d \<times> Vec4d"

definition Matx44d_eye :: Matx44d where
  "Matx44d_eye = ((1, 0, 0, 0), (0, 1, 0, 0), (0, 0, 1, 0), (0, 0, 0, 1))"

definition get_minor_3_4 :: "Matx44d \<Rightarrow> Matx34d" where
  "get_minor_3_4 T = (case T of (r0, r1, r2, r3) \<Rightarrow> (r0, r1, r2))"

definition row_times :: "Vec4d \<Rightarrow> Vec4d \<Rightarrow> real" where
  "row_times r v =
     (case r of (a, b, c, d) \<Rightarrow> case v of (x, y, z, w) \<Rightarrow> a * x + b * y + c * z + d * w)"

definition Matx34d_times :: "Matx34d \<Rightarrow> Vec4d \<Rightarrow> Point3d" where
  "Matx34d_times M v =
     (case M of (r0, r1, r2) \<Rightarrow> (row_times r0 v, row_times r1 v, row_times r2 v))"

definition push_back :: "'a list \<Rightarrow> 'a \<Rightarrow> 'a list" where
  "push_back v x = v @ [x]"

definition addObjectPoints :: "real \<Rightarrow> Matx44d \<Rightarrow> Point3d list \<Rightarrow> Point3d list" where
  "addObjectPoints s T_oi objectPoints =
     (let objectPoints = push_back objectPoints (Matx34d_times (get_minor_3_4 T_oi) (- s, - s, 0, 1));
          objectPoints = push_back objectPoints (Matx34d_times (get_minor_3_4 T_oi) (s, - s, 0, 1));
          objectPoints = push_back objectPoints (Matx34d_times (get_minor_3_4 T_oi) (s, s, 0, 1));
          objectPoints = push_back objectPoints (Matx34d_times (get_minor_3_4 T_oi) (- s, s, 0, 1))
      in objectPoints)"

definition tag_x :: "real list" where
  "tag_x = [-1, 1, 1, -1]"

definition tag_y :: "real list" where
  "tag_y = [1, 1, -1, -1]"

definition addImagePoints ::
  "('h \<Rightarrow> real \<Rightarrow> real \<Rightarrow> Point2d) \<Rightarrow> 'h apriltag_detection_t \<Rightarrow> Point2d list \<Rightarrow> Point2d list" where
  "addImagePoints homography_project detection imagePoints =
     foldl (\<lambda>imagePoints i.
              push_back imagePoints (homography_project (H detection) (tag_x ! i) (tag_y ! i)))
       imagePoints [0..<4]"

definition rotation_of :: "Matx44d \<Rightarrow> Matx33d" where
  "rotation_of T =
     (case T of ((r00, r01, r02, tx), (r10, r11, r12, ty), (r20, r21, r22, tz), bottom) \<Rightarrow>
        ((r00, r01, r02), (r10, r11, r12), (r20, r21, r22)))"

definition translation_of :: "Matx44d \<Rightarrow> Point3d" where
  "translation_of T =
     (case T of ((r00, r01, r02, tx), (r10, r11, r12, ty), (r20, r21, r22, tz), bottom) \<Rightarrow>
        (tx, ty, tz))"

definition rotate :: "Matx33d \<Rightarrow> Point3d \<Rightarrow> Point3d" where
  "rotate R p =
     (case R of ((r00, r01, r02), (r10, r11, r12), (r20, r21, r22)) \<Rightarrow>
      case p of (x, y, z) \<Rightarrow>
        (r00 * x + r01 * y + r02 * z, r10 * x + r11 * y + r12 * z, r20 * x + r21 * y + r22 * z))"

definition translate :: "Point3d \<Rightarrow> Point3d \<Rightarrow> Point3d" where
  "translate t p = (case t of (tx, ty, tz) \<Rightarrow> case p of (x, y, z) \<Rightarrow> (x + tx, y + ty, z + tz))"

definition offset_map :: "Matx44d \<Rightarrow> Point3d \<Rightarrow> Point3d" where
  "offset_map T p = translate (translation_of T) (rotate (rotation_of T) p)"

section \<open>Tag descriptions\<close>

text \<open>
  Modelled from the spec: the classes \<open>StandaloneTagDescription\<close>, \<open>TagBundleMember\<close> and
  \<open>TagBundleDescription\<close> are declared in the header \<open>common_functions.h\<close>, which is not part
  of the sources at hand. A standalone description holds an id, a size and a frame name. A
  bundle holds a name and the ordered list of its member tags, each with id, size and the
  rigid offset to the bundle origin, together with the reverse index \<open>id2idx\<close> from member
  id to the position in the member list. The trailing underscore of the C++ member names
  (\<open>name_\<close>, \<open>tags_\<close>, \<open>id2idx_\<close>) is dropped, and \<open>id\<close> and \<open>size\<close> carry a prefix.
  \<open>memberSize\<close> and \<open>memberT_oi\<close> are only called for ids that were found in the index.
\<close>

record StandaloneTagDescription =
  standalone_id :: int
  standalone_size :: real
  frame_name :: string

record TagBundleMember =
  member_id :: int
  member_size :: real
  member_T_oi :: Matx44d

record TagBundleDescription =
  bundle_name :: string
  tags :: "TagBundleMember list"
  id2idx :: "int \<rightharpoonup> nat"

definition TagBundleDescription_new :: "string \<Rightarrow> TagBundleDescription" where
  "TagBundleDescription_new bundleName = \<lparr>bundle_name = bundleName, tags = [], id2idx = Map.empty\<rparr>"

definition addMemberTag :: "TagBundleDescription \<Rightarrow> int \<Rightarrow> real \<Rightarrow> Matx44d \<Rightarrow> TagBundleDescription" where
  "addMemberTag bundle tagID tag_size T =
     bundle\<lparr>tags := tags bundle @ [\<lparr>member_id = tagID, member_size = tag_size, member_T_oi = T\<rparr>],
            id2idx := (id2idx bundle)(tagID \<mapsto> length (tags bundle))\<rparr>"

definition bundleIds :: "TagBundleDescription \<Rightarrow> int list" where
  "bundleIds bundle = map member_id (tags bundle)"

definition bundleSizes :: "TagBundleDescription \<Rightarrow> real list" where
  "bundleSizes bundle = map member_size (tags bundle)"

definition memberSize :: "TagBundleDescription \<Rightarrow> int \<Rightarrow> real" where
  "memberSize bundle tagID = member_size (tags bundle ! the (id2idx bundle tagID))"

definition memberT_oi :: "TagBundleDescription \<Rightarrow> int \<Rightarrow> Matx44d" where
  "memberT_oi bundle tagID = member_T_oi (tags bundle ! the (id2idx bundle tagID))"

section \<open>The detector and its collaborators\<close>

record TagDetector =
  standalone_tag_descriptions :: "int \<rightharpoonup> StandaloneTagDescription"
  tag_bundle_descriptions :: "TagBundleDescription list"

record Header =
  seq :: nat
  stamp :: real
  frame_id :: string

record PoseWithCovarianceStamped =
  header :: Header
  position :: Point3d
  orientation :: Vec4d

record AprilTagDetection =
  ids :: "int list"
  sizes :: "real list"
  pose :: PoseWithCovarianceStamped

record AprilTagDetectionArray =
  array_header :: Header
  array_detections :: "AprilTagDetection list"

text \<open>
  The numerical collaborators are functions of other libraries and are parameters of the
  model: the homography projection of the decoder library, the perspective solver
  \<open>cv::solvePnP\<close> (it returns the rotation vector and the translation vector),
  \<open>cv::Rodrigues\<close>, and the conversion of a rotation matrix to a quaternion \<open>(x, y, z, w)\<close>.
\<close>

record 'h collaborators =
  homography_project :: "'h \<Rightarrow> real \<Rightarrow> real \<Rightarrow> Point2d"
  solvePnP :: "Point3d list \<Rightarrow> Point2d list \<Rightarrow> Matx33d \<Rightarrow> Vec4d \<Rightarrow> Point3d \<times> Point3d"
  Rodrigues :: "Point3d \<Rightarrow> Matx33d"
  Quaternion :: "Matx33d \<Rightarrow> Vec4d"

text \<open>
  \<open>findStandaloneTagDescription\<close> looks the id up in the map of standalone descriptions. The
  flag only decides whether a throttled warning is logged; log output is not modelled.
\<close>

definition findStandaloneTagDescription ::
  "TagDetector \<Rightarrow> int \<Rightarrow> bool \<Rightarrow> StandaloneTagDescription option" where
  "findStandaloneTagDescription td tagID printWarning = standalone_tag_descriptions td tagID"

definition getRelativeTransform ::
  "'h collaborators \<Rightarrow> Point3d list \<Rightarrow> Point2d list \<Rightarrow> real \<Rightarrow> real \<Rightarrow> real \<Rightarrow> real \<Rightarrow> Matx44d" where
  "getRelativeTransform ext objectPoints imagePoints fx fy cx cy =
     (let cameraMatrix = ((fx, 0, cx), (0, fy, cy), (0, 0, 1));
          distCoeffs = (0, 0, 0, 0);
          (rvec, tvec) = solvePnP ext objectPoints imagePoints cameraMatrix distCoeffs;
          R = Rodrigues ext rvec
      in case R of ((r00, r01, r02), (r10, r11, r12), (r20, r21, r22)) \<Rightarrow>
         case tvec of (t0, t1, t2) \<Rightarrow>
           ((r00, r01, r02, t0), (r10, r11, r12, t1), (r20, r21, r22, t2), (0, 0, 0, 1)))"

definition makeTagPose :: "Matx44d \<Rightarrow> Vec4d \<Rightarrow> Header \<Rightarrow> PoseWithCovarianceStamped" where
  "makeTagPose transform rot_quaternion hdr =
     \<lparr>header = hdr, position = translation_of transform, orientation = rot_quaternion\<rparr>"

definition estimatePose ::
  "'h collaborators \<Rightarrow> Header \<Rightarrow> Point3d list \<Rightarrow> Point2d list \<Rightarrow> real \<Rightarrow> real \<Rightarrow> real \<Rightarrow> real
     \<Rightarrow> PoseWithCovarianceStamped" where
  "estimatePose ext hdr objectPoints imagePoints fx fy cx cy =
     (let transform = getRelativeTransform ext objectPoints imagePoints fx fy cx cy;
          rot = rotation_of transform;
          rot_quaternion = Quaternion ext rot
      in makeTagPose transform rot_quaternion hdr)"

text \<open>
  \<open>std::map::operator[]\<close> on the accumulators: a missing key reads as the empty vector.
\<close>

definition at_key :: "('k \<rightharpoonup> 'a list) \<Rightarrow> 'k \<Rightarrow> 'a list" where
  "at_key m k = (case m k of None \<Rightarrow> [] | Some v \<Rightarrow> v)"

record frame_state =
  tag_detection_array :: "AprilTagDetection list"
  detection_names :: "string list"
  bundleObjectPoints :: "string \<rightharpoonup> Point3d list"
  bundleImagePoints :: "string \<rightharpoonup> Point2d list"

text \<open>The body of the inner loop over the registered bundles, for one detection.\<close>

definition collect_bundle ::
  "'h collaborators \<Rightarrow> 'h apriltag_detection_t
     \<Rightarrow> bool \<times> (string \<rightharpoonup> Point3d list) \<times> (string \<rightharpoonup> Point2d list) \<Rightarrow> TagBundleDescription
     \<Rightarrow> bool \<times> (string \<rightharpoonup> Point3d list) \<times> (string \<rightharpoonup> Point2d list)" where
  "collect_bundle ext detection acc bundle =
     (case acc of (is_part_of_bundle, objectPoints, imagePoints) \<Rightarrow>
      let tagID = id_tag detection in
      if id2idx bundle tagID \<noteq> None then
        let bundleName = bundle_name bundle;
            s = memberSize bundle tagID / 2
        in (True,
            objectPoints(bundleName \<mapsto>
              addObjectPoints s (memberT_oi bundle tagID) (at_key objectPoints bundleName)),
            imagePoints(bundleName \<mapsto>
              addImagePoints (homography_project ext) detection (at_key imagePoints bundleName)))
      else (is_part_of_bundle, objectPoints, imagePoints))"

text \<open>The body of the loop over the detections that survived duplicate removal.\<close>

definition process_detection ::
  "TagDetector \<Rightarrow> 'h collaborators \<Rightarrow> Header \<Rightarrow> real \<Rightarrow> real \<Rightarrow> real \<Rightarrow> real
     \<Rightarrow> frame_state \<Rightarrow> 'h apriltag_detection_t \<Rightarrow> frame_state" where
  "process_detection td ext hdr fx fy cx cy st detection =
     (let tagID = id_tag detection;
          (is_part_of_bundle, objectPoints, imagePoints) =
             foldl (collect_bundle ext detection)
               (False, bundleObjectPoints st, bundleImagePoints st) (tag_bundle_descriptions td);
          st = st\<lparr>bundleObjectPoints := objectPoints, bundleImagePoints := imagePoints\<rparr>
      in case findStandaloneTagDescription td tagID (\<not> is_part_of_bundle) of
           None \<Rightarrow> st
         | Some standaloneDescription \<Rightarrow>
             let tag_size = standalone_size standaloneDescription;
                 standaloneTagObjectPoints = addObjectPoints (tag_size / 2) Matx44d_eye [];
                 standaloneTagImagePoints = addImagePoints (homography_project ext) detection [];
                 tag_pose = estimatePose ext hdr standaloneTagObjectPoints standaloneTagImagePoints
                              fx fy cx cy;
                 tag_detection = \<lparr>ids = [id_tag detection], sizes = [tag_size], pose = tag_pose\<rparr>
             in st\<lparr>tag_detection_array := push_back (tag_detection_array st) tag_detection,
                   detection_names := push_back (detection_names st)
                                        (frame_name standaloneDescription)\<rparr>)"

text \<open>The body of the second loop, over the registered bundles.\<close>

definition estimate_bundle ::
  "'h collaborators \<Rightarrow> Header \<Rightarrow> real \<Rightarrow> real \<Rightarrow> real \<Rightarrow> real
     \<Rightarrow> frame_state \<Rightarrow> TagBundleDescription \<Rightarrow> frame_state" where
  "estimate_bundle ext hdr fx fy cx cy st bundle =
     (let bundleName = bundle_name bundle in
      if bundleObjectPoints st bundleName \<noteq> None then
        let bundle_pose = estimatePose ext hdr (at_key (bundleObjectPoints st) bundleName)
                            (at_key (bundleImagePoints st) bundleName) fx fy cx cy;
            tag_detection = \<lparr>ids = bundleIds bundle, sizes = bundleSizes bundle, pose = bundle_pose\<rparr>
        in st\<lparr>tag_detection_array := push_back (tag_detection_array st) tag_detection,
              detection_names := push_back (detection_names st) (bundle_name bundle)\<rparr>
      else st)"

text \<open>
  \<open>detectTags\<close> receives the decoder's detections of the frame, removes the duplicates
  (\<open>slot_bits\<close> is what the comparator of the sort reads, see \<open>idComparison\<close>) and runs the
  two loops; \<open>estimate_poses\<close> is the part after duplicate removal. Image conversion,
  the timing report and the optional transform broadcast are not modelled.
\<close>

definition estimate_poses ::
  "TagDetector \<Rightarrow> 'h collaborators \<Rightarrow> Header \<Rightarrow> real \<Rightarrow> real \<Rightarrow> real \<Rightarrow> real
     \<Rightarrow> 'h apriltag_detection_t list \<Rightarrow> AprilTagDetectionArray" where
  "estimate_poses td ext hdr fx fy cx cy kept_detections =
     (let st = \<lparr>tag_detection_array = [], detection_names = [],
                bundleObjectPoints = Map.empty, bundleImagePoints = Map.empty\<rparr>;
          st = foldl (process_detection td ext hdr fx fy cx cy) st kept_detections;
          st = foldl (estimate_bundle ext hdr fx fy cx cy) st (tag_bundle_descriptions td)
      in \<lparr>array_header = hdr, array_detections = tag_detection_array st\<rparr>)"

definition detectTags ::
  "TagDetector \<Rightarrow> 'h collaborators \<Rightarrow> ('h apriltag_detection_t \<Rightarrow> int)
     \<Rightarrow> 'h apriltag_detection_t list \<Rightarrow> Header
     \<Rightarrow> real \<Rightarrow> real \<Rightarrow> real \<Rightarrow> real \<Rightarrow> AprilTagDetectionArray option" where
  "detectTags td ext slot_bits detected hdr fx fy cx cy =
     (case removeDuplicates slot_bits detected of
        None \<Rightarrow> None
      | Some kept_detections \<Rightarrow> Some (estimate_poses td ext hdr fx fy cx cy kept_detections))"

subsection \<open>Auxiliary notions for the analysis of a frame\<close>

definition is_member :: "TagBundleDescription \<Rightarrow> 'h apriltag_detection_t \<Rightarrow> bool" where
  "is_member bundle d \<longleftrightarrow> id2idx bundle (id_tag d) \<noteq> None"

definition member_objectPoints :: "TagBundleDescription \<Rightarrow> 'h apriltag_detection_t \<Rightarrow> Point3d list" where
  "member_objectPoints bundle d =
     addObjectPoints (memberSize bundle (id_tag d) / 2) (memberT_oi bundle (id_tag d)) []"

definition member_imagePoints :: "'h collaborators \<Rightarrow> 'h apriltag_detection_t \<Rightarrow> Point2d list" where
  "member_imagePoints ext d = addImagePoints (homography_project ext) d []"

definition containing ::
  "TagBundleDescription list \<Rightarrow> string \<Rightarrow> 'h apriltag_detection_t \<Rightarrow> TagBundleDescription list" where
  "containing bundles n d = filter (\<lambda>b. bundle_name b = n \<and> is_member b d) bundles"

definition pooled_objectPoints ::
  "TagBundleDescription list \<Rightarrow> 'h apriltag_detection_t list \<Rightarrow> string \<Rightarrow> Point3d list" where
  "pooled_objectPoints bundles ds n =
     concat (map (\<lambda>d. concat (map (\<lambda>b. member_objectPoints b d) (containing bundles n d))) ds)"

definition pooled_imagePoints ::
  "'h collaborators \<Rightarrow> TagBundleDescription list \<Rightarrow> 'h apriltag_detection_t list \<Rightarrow> string
     \<Rightarrow> Point2d list" where
  "pooled_imagePoints ext bundles ds n =
     concat (map (\<lambda>d. concat (map (\<lambda>b. member_imagePoints ext d) (containing bundles n d))) ds)"

definition extend_acc :: "('k \<rightharpoonup> 'a list) \<Rightarrow> ('k \<Rightarrow> 'a list) \<Rightarrow> ('k \<rightharpoonup> 'a list)" where
  "extend_acc m f = (\<lambda>n. if f n = [] then m n else Some (at_key m n @ f n))"

definition standalone_entry ::
  "'h collaborators \<Rightarrow> Header \<Rightarrow> real \<Rightarrow> real \<Rightarrow> real \<Rightarrow> real \<Rightarrow> 'h apriltag_detection_t
     \<Rightarrow> StandaloneTagDescription \<Rightarrow> AprilTagDetection" where
  "standalone_entry ext hdr fx fy cx cy d description =
     \<lparr>ids = [id_tag d], sizes = [standalone_size description],
      pose = estimatePose ext hdr (addObjectPoints (standalone_size description / 2) Matx44d_eye [])
               (member_imagePoints ext d) fx fy cx cy\<rparr>"

definition standalone_entries ::
  "TagDetector \<Rightarrow> 'h collaborators \<Rightarrow> Header \<Rightarrow> real \<Rightarrow> real \<Rightarrow> real \<Rightarrow> real
     \<Rightarrow> 'h apriltag_detection_t list \<Rightarrow> AprilTagDetection list" where
  "standalone_entries td ext hdr fx fy cx cy ds =
     concat (map (\<lambda>d. case standalone_tag_descriptions td (id_tag d) of
                         None \<Rightarrow> []
                       | Some description \<Rightarrow> [standalone_entry ext hdr fx fy cx cy d description]) ds)"

definition standalone_names :: "TagDetector \<Rightarrow> 'h apriltag_detection_t list \<Rightarrow> string list" where
  "standalone_names td ds =
     concat (map (\<lambda>d. case standalone_tag_descriptions td (id_tag d) of
                         None \<Rightarrow> []
                       | Some description \<Rightarrow> [frame_name description]) ds)"

definition bundle_entry ::
  "'h collaborators \<Rightarrow> Header \<Rightarrow> real \<Rightarrow> real \<Rightarrow> real \<Rightarrow> real
     \<Rightarrow> (string \<Rightarrow> Point3d list) \<Rightarrow> (string \<Rightarrow> Point2d list) \<Rightarrow> TagBundleDescription
     \<Rightarrow> AprilTagDetection" where
  "bundle_entry ext hdr fx fy cx cy objectPoints imagePoints bundle =
     \<lparr>ids = bundleIds bundle, sizes = bundleSizes bundle,
      pose = estimatePose ext hdr (objectPoints (bundle_name bundle))
               (imagePoints (bundle_name bundle)) fx fy cx cy\<rparr>"

section \<open>Loading the bundle descriptions\<close>

text \<open>
  The configuration arrives as an \<open>XmlRpc::XmlRpcValue\<close>, a class of the XmlRpc library:
  a tagged value that is invalid, a boolean, an integer, a double, a string, an array or a
  struct (the date and binary types carry nothing for this parser and are left out).
  \<open>getType\<close> returns the tag. Indexing and conversion check the tag and throw an
  \<open>XmlRpcException\<close> on a mismatch; an invalid value takes the type it is used at. A struct
  member that does not exist reads as an invalid value.

  Modelled from the spec: \<open>ROS_ASSERT\<close> is a macro of the ROS libraries; a failed assertion
  is the fatal configuration error reported at load time, here the error value
  \<open>AssertionFailed\<close>.
\<close>

datatype XmlRpcValue =
    XInvalid
  | XBoolean bool
  | XInt int
  | XDouble real
  | XString string
  | XArray "XmlRpcValue list"
  | XStruct "(string \<times> XmlRpcValue) list"

datatype Type = TypeInvalid | TypeBoolean | TypeInt | TypeDouble | TypeString | TypeArray | TypeStruct

datatype error = AssertionFailed | XmlRpcException

fun getType :: "XmlRpcValue \<Rightarrow> Type" where
  "getType XInvalid = TypeInvalid"
| "getType (XBoolean b) = TypeBoolean"
| "getType (XInt i) = TypeInt"
| "getType (XDouble x) = TypeDouble"
| "getType (XString s) = TypeString"
| "getType (XArray xs) = TypeArray"
| "getType (XStruct m) = TypeStruct"

definition ROS_ASSERT :: "bool \<Rightarrow> error + unit" where
  "ROS_ASSERT cond = (if cond then Inr () else Inl AssertionFailed)"

definition bind_result :: "error + 'a \<Rightarrow> ('a \<Rightarrow> error + 'b) \<Rightarrow> error + 'b" where
  "bind_result r f = (case r of Inl e \<Rightarrow> Inl e | Inr v \<Rightarrow> f v)"

fun hasMember :: "XmlRpcValue \<Rightarrow> string \<Rightarrow> bool" where
  "hasMember (XStruct m) field = (map_of m field \<noteq> None)"
| "hasMember v field = False"

fun at_member :: "XmlRpcValue \<Rightarrow> string \<Rightarrow> error + XmlRpcValue" where
  "at_member (XStruct m) field = Inr (case map_of m field of None \<Rightarrow> XInvalid | Some v \<Rightarrow> v)"
| "at_member XInvalid field = Inr XInvalid"
| "at_member v field = Inl XmlRpcException"

fun elements :: "XmlRpcValue \<Rightarrow> error + XmlRpcValue list" where
  "elements (XArray xs) = Inr xs"
| "elements v = Inl XmlRpcException"

fun as_int :: "XmlRpcValue \<Rightarrow> error + int" where
  "as_int (XInt i) = Inr i"
| "as_int XInvalid = Inr 0"
| "as_int v = Inl XmlRpcException"

fun as_double :: "XmlRpcValue \<Rightarrow> error + real" where
  "as_double (XDouble x) = Inr x"
| "as_double XInvalid = Inr 0"
| "as_double v = Inl XmlRpcException"

fun as_string :: "XmlRpcValue \<Rightarrow> error + string" where
  "as_string (XString s) = Inr s"
| "as_string XInvalid = Inr []"
| "as_string v = Inl XmlRpcException"

fun decimal :: "nat \<Rightarrow> string" where
  "decimal n = (if n < 10 then [''0123456789'' ! n]
                else decimal (n div 10) @ [''0123456789'' ! (n mod 10)])"

declare decimal.simps [simp del]

definition xmlRpcGetDoubleWithDefault :: "XmlRpcValue \<Rightarrow> string \<Rightarrow> real \<Rightarrow> error + real" where
  "xmlRpcGetDoubleWithDefault xmlValue field defaultValue =
     (if hasMember xmlValue field then
        bind_result (at_member xmlValue field) (\<lambda>v.
        bind_result (ROS_ASSERT (getType v = TypeDouble \<or> getType v = TypeInt)) (\<lambda>_.
        if getType v = TypeInt
        then bind_result (as_int v) (\<lambda>tmp. Inr (real_of_int tmp))
        else as_double v))
      else Inr defaultValue)"

text \<open>
  The body of the loop over the member tags of one bundle. The check of the member's size
  against the standalone description of the same id comes right after the two fields are
  read. The quaternion is normalised and turned into a rotation matrix by the Eigen library;
  both steps together are the parameter \<open>toRotationMatrix\<close>.
\<close>

definition parse_member ::
  "TagDetector \<Rightarrow> (Vec4d \<Rightarrow> Matx33d) \<Rightarrow> TagBundleDescription \<Rightarrow> XmlRpcValue
     \<Rightarrow> error + TagBundleDescription" where
  "parse_member td toRotationMatrix bundle_i tag =
     bind_result (ROS_ASSERT (getType tag = TypeStruct)) (\<lambda>_.
     bind_result (at_member tag ''id'') (\<lambda>id_value.
     bind_result (ROS_ASSERT (getType id_value = TypeInt)) (\<lambda>_.
     bind_result (as_int id_value) (\<lambda>tagID.
     bind_result (at_member tag ''size'') (\<lambda>size_value.
     bind_result (ROS_ASSERT (getType size_value = TypeDouble)) (\<lambda>_.
     bind_result (as_double size_value) (\<lambda>tag_size.
     bind_result
       (case findStandaloneTagDescription td tagID False of
          Some standaloneDescription \<Rightarrow> ROS_ASSERT (tag_size = standalone_size standaloneDescription)
        | None \<Rightarrow> Inr ()) (\<lambda>_.
     bind_result (xmlRpcGetDoubleWithDefault tag ''x'' 0) (\<lambda>x.
     bind_result (xmlRpcGetDoubleWithDefault tag ''y'' 0) (\<lambda>y.
     bind_result (xmlRpcGetDoubleWithDefault tag ''z'' 0) (\<lambda>z.
     bind_result (xmlRpcGetDoubleWithDefault tag ''qw'' 1) (\<lambda>qw.
     bind_result (xmlRpcGetDoubleWithDefault tag ''qx'' 0) (\<lambda>qx.
     bind_result (xmlRpcGetDoubleWithDefault tag ''qy'' 0) (\<lambda>qy.
     bind_result (xmlRpcGetDoubleWithDefault tag ''qz'' 0) (\<lambda>qz.
     case toRotationMatrix (qw, qx, qy, qz) of
       ((r00, r01, r02), (r10, r11, r12), (r20, r21, r22)) \<Rightarrow>
         let T_mj = ((r00, r01, r02, x), (r10, r11, r12, y), (r20, r21, r22, z), (0, 0, 0, 1))
         in Inr (addMemberTag bundle_i tagID tag_size T_mj))))))))))))))))"

fun parse_members ::
  "TagDetector \<Rightarrow> (Vec4d \<Rightarrow> Matx33d) \<Rightarrow> TagBundleDescription \<Rightarrow> XmlRpcValue list
     \<Rightarrow> error + TagBundleDescription" where
  "parse_members td toRotationMatrix bundle_i [] = Inr bundle_i"
| "parse_members td toRotationMatrix bundle_i (tag # member_tags) =
     bind_result (parse_member td toRotationMatrix bundle_i tag)
       (\<lambda>bundle_i. parse_members td toRotationMatrix bundle_i member_tags)"

text \<open>The body of the loop over the bundles; \<open>i\<close> is the index of the bundle.\<close>

definition parse_bundle ::
  "TagDetector \<Rightarrow> (Vec4d \<Rightarrow> Matx33d) \<Rightarrow> nat \<Rightarrow> XmlRpcValue \<Rightarrow> error + TagBundleDescription" where
  "parse_bundle td toRotationMatrix i bundle_description =
     bind_result (ROS_ASSERT (getType bundle_description = TypeStruct)) (\<lambda>_.
     bind_result
       (if hasMember bundle_description ''name'' then
          bind_result (at_member bundle_description ''name'') (\<lambda>name_value.
          bind_result (ROS_ASSERT (getType name_value = TypeString)) (\<lambda>_.
          as_string name_value))
        else Inr (''bundle_'' @ decimal i)) (\<lambda>bundleName.
     let bundle_i = TagBundleDescription_new bundleName in
     bind_result (at_member bundle_description ''layout'') (\<lambda>member_tags.
     bind_result (ROS_ASSERT (getType member_tags = TypeArray)) (\<lambda>_.
     bind_result (elements member_tags) (\<lambda>member_tags.
     parse_members td toRotationMatrix bundle_i member_tags)))))"

fun parse_bundles ::
  "TagDetector \<Rightarrow> (Vec4d \<Rightarrow> Matx33d) \<Rightarrow> nat \<Rightarrow> TagBundleDescription list \<Rightarrow> XmlRpcValue list
     \<Rightarrow> error + TagBundleDescription list" where
  "parse_bundles td toRotationMatrix i descriptions [] = Inr descriptions"
| "parse_bundles td toRotationMatrix i descriptions (bundle_description # rest) =
     bind_result (parse_bundle td toRotationMatrix i bundle_description)
       (\<lambda>bundle_i. parse_bundles td toRotationMatrix (i + 1) (push_back descriptions bundle_i) rest)"

definition parseTagBundles ::
  "TagDetector \<Rightarrow> (Vec4d \<Rightarrow> Matx33d) \<Rightarrow> XmlRpcValue \<Rightarrow> error + TagBundleDescription list" where
  "parseTagBundles td toRotationMatrix tag_bundles =
     bind_result (ROS_ASSERT (getType tag_bundles = TypeArray)) (\<lambda>_.
     bind_result (elements tag_bundles) (\<lambda>bundle_descriptions.
     parse_bundles td toRotationMatrix 0 [] bundle_descriptions))"

subsection \<open>Auxiliary notions for the analysis of the loader\<close>

text \<open>
  What a bundle description declares, read off the configuration value directly, and the
  configurations whose fields have the types the parser asserts. \<open>size_mismatch\<close> says that
  a member's id has a standalone description with a different size. \<open>indexed\<close> says that
  the index of a bundle knows exactly the ids of its member list.
\<close>

fun declared_id :: "XmlRpcValue \<Rightarrow> int option" where
  "declared_id (XStruct m) = (case map_of m ''id'' of Some (XInt i) \<Rightarrow> Some i | _ \<Rightarrow> None)"
| "declared_id v = None"

fun declared_size :: "XmlRpcValue \<Rightarrow> real option" where
  "declared_size (XStruct m) = (case map_of m ''size'' of Some (XDouble x) \<Rightarrow> Some x | _ \<Rightarrow> None)"
| "declared_size v = None"

fun optional_number :: "XmlRpcValue \<Rightarrow> string \<Rightarrow> bool" where
  "optional_number (XStruct m) field =
     (case map_of m field of
        None \<Rightarrow> True | Some (XInt i) \<Rightarrow> True | Some (XDouble x) \<Rightarrow> True | Some v \<Rightarrow> False)"
| "optional_number v field = False"

fun optional_name :: "XmlRpcValue \<Rightarrow> bool" where
  "optional_name (XStruct m) =
     (case map_of m ''name'' of None \<Rightarrow> True | Some (XString s) \<Rightarrow> True | Some v \<Rightarrow> False)"
| "optional_name v = False"

fun layout_of :: "XmlRpcValue \<Rightarrow> XmlRpcValue list option" where
  "layout_of (XStruct m) = (case map_of m ''layout'' of Some (XArray member_tags) \<Rightarrow> Some member_tags | _ \<Rightarrow> None)"
| "layout_of v = None"

definition well_typed_member :: "XmlRpcValue \<Rightarrow> bool" where
  "well_typed_member tag \<longleftrightarrow>
     declared_id tag \<noteq> None \<and> declared_size tag \<noteq> None \<and>
     list_all (optional_number tag) [''x'', ''y'', ''z'', ''qw'', ''qx'', ''qy'', ''qz'']"

definition well_typed_bundle :: "XmlRpcValue \<Rightarrow> bool" where
  "well_typed_bundle bundle_description \<longleftrightarrow>
     optional_name bundle_description \<and>
     (case layout_of bundle_description of
        None \<Rightarrow> False | Some member_tags \<Rightarrow> list_all well_typed_member member_tags)"

definition well_typed_bundles :: "XmlRpcValue \<Rightarrow> bool" where
  "well_typed_bundles tag_bundles \<longleftrightarrow>
     (case tag_bundles of XArray bs \<Rightarrow> list_all well_typed_bundle bs | _ \<Rightarrow> False)"

definition members_of :: "XmlRpcValue \<Rightarrow> XmlRpcValue list" where
  "members_of bundle_description =
     (case layout_of bundle_description of None \<Rightarrow> [] | Some member_tags \<Rightarrow> member_tags)"

definition all_members :: "XmlRpcValue \<Rightarrow> XmlRpcValue list" where
  "all_members tag_bundles =
     (case tag_bundles of XArray bs \<Rightarrow> concat (map members_of bs) | _ \<Rightarrow> [])"

definition size_mismatch :: "TagDetector \<Rightarrow> XmlRpcValue \<Rightarrow> bool" where
  "size_mismatch td tag \<longleftrightarrow>
     (case declared_id tag of
        None \<Rightarrow> False
      | Some i \<Rightarrow>
          (case standalone_tag_descriptions td i of
             None \<Rightarrow> False
           | Some description \<Rightarrow> declared_size tag \<noteq> Some (standalone_size description)))"


definition indexed :: "TagBundleDescription \<Rightarrow> bool" where
  "indexed bundle \<longleftrightarrow> dom (id2idx bundle) = set (bundleIds bundle)"

section \<open>Example configurations\<close>

text \<open>
  Concrete collaborators and descriptions on which the definitions are evaluated. The example
  solver reports the numbers of object and image points it was given as the first two
  coordinates of the translation, so that the pose of an entry shows how many
  correspondences went into it.
\<close>

definition example_collaborators :: "unit collaborators" where
  "example_collaborators =
     \<lparr>homography_project = (\<lambda>h x y. (x, y)),
      solvePnP = (\<lambda>objectPoints imagePoints cameraMatrix distCoeffs.
                    ((0, 0, 0), (real (length objectPoints), real (length imagePoints), 1))),
      Rodrigues = (\<lambda>rvec. ((1, 0, 0), (0, 1, 0), (0, 0, 1))),
      Quaternion = (\<lambda>rot. (0, 0, 0, 1))\<rparr>"

definition example_header :: Header where
  "example_header = \<lparr>seq = 0, stamp = 0, frame_id = ''camera''\<rparr>"

definition example_bundle :: "string \<Rightarrow> int list \<Rightarrow> TagBundleDescription" where
  "example_bundle bundleName member_ids =
     foldl (\<lambda>bundle tagID. addMemberTag bundle tagID (1 / 10) Matx44d_eye)
       (TagBundleDescription_new bundleName) member_ids"

definition example_toRotationMatrix :: "Vec4d \<Rightarrow> Matx33d" where
  "example_toRotationMatrix q = ((1, 0, 0), (0, 1, 0), (0, 0, 1))"

text \<open>
  A reading of the slots under which the comparator finds no two slots out of order; the
  sort then leaves the array in the order in which the decoder returned it.
\<close>

definition level_bits :: "'h apriltag_detection_t \<Rightarrow> int" where
  "level_bits d = 0"

section \<open>Properties of duplicate removal\<close>

subsection \<open>Termination of the scan\<close>

lemma removeDuplicates_loop_returns:
  "\<exists>out. removeDuplicates_loop detections count_n duplicate_detected = Some out"
proof (induction "2 * length detections - count_n"
         arbitrary: detections count_n duplicate_detected rule: less_induct)
  case less
  show ?case
  proof (cases "int count_n > zarray_size detections - 1")
    case True
    then show ?thesis
      by (subst removeDuplicates_loop.simps) simp
  next
    case False
    then have inside: "count_n < length detections"
      by (simp add: zarray_size_def)
    have removed: "2 * length (zarray_remove_index detections count_n) - count_n
                     < 2 * length detections - count_n"
      using inside by (simp add: zarray_remove_index_def)
    have advanced: "2 * length detections - (count_n + 1) < 2 * length detections - count_n"
      using inside by linarith
    from less [OF removed] less [OF advanced] False show ?thesis
      by (subst removeDuplicates_loop.simps) (simp add: Let_def)
  qed
qed

text \<open>
  C10: the scan of \<open>removeDuplicates\<close> terminates on every finite detection array, from every
  cursor position and flag: the measure \<open>2 * size - cursor\<close> decreases at every iteration
  (by two when an element is removed, by one when the cursor advances), so the loop reaches
  its exit and \<open>removeDuplicates\<close> returns an array, whatever order the sort has left.
\<close>

theorem removeDuplicates_terminates:
  "(\<exists>out. removeDuplicates slot_bits detections = Some out) \<and>
   (\<exists>out. removeDuplicates_loop detections count_n duplicate_detected = Some out)"
  unfolding removeDuplicates_def
  using removeDuplicates_loop_returns by blast

subsection \<open>The scan from the cursor\<close>

lemma loop_exit: "removeDuplicates_loop pre (length pre) dup = Some pre"
  by (subst removeDuplicates_loop.simps) (simp add: zarray_size_def)

lemma zarray_remove_index_append:
  "zarray_remove_index (pre @ x # suf) (length pre) = pre @ suf"
  by (simp add: zarray_remove_index_def)

lemma loop_last:
  "removeDuplicates_loop (pre @ [x]) (length pre) dup = Some (pre @ scan dup [x])"
proof -
  have a: "removeDuplicates_loop (pre @ [x]) (Suc (length pre)) d = Some (pre @ [x])" for d
    using loop_exit [of "pre @ [x]" d] by simp
  have b: "zarray_remove_index (pre @ [x]) (length pre) = pre"
    using zarray_remove_index_append [of pre x "[]"] by simp
  show ?thesis
    by (subst removeDuplicates_loop.simps)
       (simp add: zarray_size_def zarray_get_def a b loop_exit)
qed

lemma loop_scan:
  "removeDuplicates_loop (pre @ suf) (length pre) dup = Some (pre @ scan dup suf)"
proof (induction dup suf arbitrary: pre rule: scan.induct)
  case (1 dup)
  show ?case using loop_exit [of pre dup] by simp
next
  case (2 dup x)
  show ?case by (rule loop_last)
next
  case (3 dup x y r)
  have keep: "removeDuplicates_loop (pre @ x # y # r) (Suc (length pre)) False
                = Some (pre @ x # scan False (y # r))" if "id_tag x \<noteq> id_tag y" "\<not> dup"
    using "3.IH"(3) [OF that, of "pre @ [x]"] by simp
  show ?case
    by (subst removeDuplicates_loop.simps)
       (simp add: zarray_size_def zarray_get_def nth_append zarray_remove_index_append
          "3.IH"(1) "3.IH"(2) keep)
qed

lemma removeDuplicates_scan:
  "removeDuplicates slot_bits ds = Some (scan False (zarray_sort (idComparison slot_bits) ds))"
  unfolding removeDuplicates_def
  using loop_scan [of "[]" "zarray_sort (idComparison slot_bits) ds" False] by simp

subsection \<open>The sort\<close>

lemma idComparison_le: "idComparison slot_bits a b \<le> 0 \<longleftrightarrow> slot_bits a \<le> slot_bits b"
  by (simp add: idComparison_def Let_def)

lemma mset_zarray_insert: "mset (zarray_insert compar x ys) = add_mset x (mset ys)"
  by (induction ys) simp_all

lemma mset_zarray_sort: "mset (zarray_sort compar za) = mset za"
  unfolding zarray_sort_def by (induction za) (simp_all add: mset_zarray_insert)

lemma set_zarray_insert: "set (zarray_insert compar x ys) = insert x (set ys)"
  by (induction ys) auto

lemma set_zarray_sort: "set (zarray_sort compar za) = set za"
  using mset_zarray_sort [of compar za] by (metis set_mset_mset)

lemma sorted_zarray_insert:
  "sorted (map slot_bits ys) \<Longrightarrow>
     sorted (map slot_bits (zarray_insert (idComparison slot_bits) x ys))"
  by (induction ys) (auto simp: idComparison_le set_zarray_insert)

lemma sorted_zarray_sort: "sorted (map slot_bits (zarray_sort (idComparison slot_bits) za))"
  unfolding zarray_sort_def by (induction za) (simp_all add: sorted_zarray_insert)

lemma zarray_sort_level:
  assumes "\<And>a b. compar a b = 0"
  shows "zarray_sort compar za = za"
proof (induction za)
  case Nil
  show ?case by (simp add: zarray_sort_def)
next
  case (Cons x xs)
  then have "zarray_sort compar (x # xs) = zarray_insert compar x xs"
    by (simp add: zarray_sort_def)
  also have "\<dots> = x # xs"
    using assms by (cases xs) simp_all
  finally show ?case .
qed

subsection \<open>What the scan keeps\<close>

text \<open>
  The scan compares each element with its successor only. An array in which no two
  neighbours share an id, and whose last id is not the sentinel, is returned as it is.
\<close>

lemma scan_neighbours_differ:
  "distinct_adj (map id_tag xs) \<Longrightarrow> (xs \<noteq> [] \<Longrightarrow> id_tag (last xs) \<noteq> -1) \<Longrightarrow>
     scan False xs = xs"
proof (induction xs)
  case Nil
  show ?case by simp
next
  case (Cons x xs)
  show ?case
  proof (cases xs)
    case Nil
    with Cons.prems show ?thesis by simp
  next
    case (Cons y r)
    with Cons.prems have "id_tag x \<noteq> id_tag y" and "distinct_adj (map id_tag xs)"
      and "id_tag (last xs) \<noteq> -1"
      by simp_all
    with Cons.IH Cons show ?thesis by simp
  qed
qed

lemma distinct_distinct_adj: "distinct xs \<Longrightarrow> distinct_adj xs"
proof (induction xs)
  case Nil
  show ?case by simp
next
  case (Cons x xs)
  then show ?case by (cases xs) simp_all
qed

lemma loop_distinct_ids:
  assumes "distinct (map id_tag xs)" and "\<forall>d\<in>set xs. id_tag d \<noteq> -1"
  shows "removeDuplicates_loop xs 0 False = Some xs"
proof -
  have "xs \<noteq> [] \<Longrightarrow> id_tag (last xs) \<noteq> -1"
    using assms(2) last_in_set by blast
  with distinct_distinct_adj [OF assms(1)] have "scan False xs = xs"
    by (rule scan_neighbours_differ)
  then show ?thesis using loop_scan [of "[]" xs False] by simp
qed

text \<open>
  C2 (as amended): when all ids are pairwise distinct and none of them is the sentinel
  \<open>-1\<close>, \<open>removeDuplicates\<close> returns the input up to order: the same detections, with no
  repeated id. This holds for whatever the comparator reads, and the scan returns every
  arrangement of such an input unchanged.
\<close>

theorem removeDuplicates_distinct_ids:
  assumes "distinct (map id_tag detections)" and "\<forall>d\<in>set detections. id_tag d \<noteq> -1"
  shows "(\<exists>out. removeDuplicates slot_bits detections = Some out \<and> mset out = mset detections
            \<and> set out = set detections \<and> distinct (map id_tag out))
     \<and> (mset arranged = mset detections \<longrightarrow>
            removeDuplicates_loop arranged 0 False = Some arranged)"
proof -
  have any: "removeDuplicates_loop arranged 0 False = Some arranged"
    if ms: "mset arranged = mset detections" for arranged :: "'a apriltag_detection_t list"
  proof -
    from ms have "mset (map id_tag arranged) = mset (map id_tag detections)" by simp
    then have "distinct (map id_tag arranged)"
      using assms(1) by (metis mset_eq_imp_distinct_iff)
    moreover have "set arranged = set detections" using ms by (rule mset_eq_setD)
    ultimately show ?thesis using assms(2) by (intro loop_distinct_ids) simp_all
  qed
  let ?s = "zarray_sort (idComparison slot_bits) detections"
  have ms: "mset ?s = mset detections" by (rule mset_zarray_sort)
  from any [OF ms] have out: "removeDuplicates slot_bits detections = Some ?s"
    by (simp add: removeDuplicates_def)
  from ms have "mset (map id_tag ?s) = mset (map id_tag detections)" by simp
  then have "distinct (map id_tag ?s)"
    using assms(1) by (metis mset_eq_imp_distinct_iff)
  moreover have "set ?s = set detections" by (rule set_zarray_sort)
  ultimately show ?thesis using out ms any by blast
qed

theorem removeDuplicates_distinct_ids_witness:
  "distinct (map id_tag [\<lparr>id_tag = 4, H = ()\<rparr>, \<lparr>id_tag = 0, H = ()\<rparr>, \<lparr>id_tag = 2, H = ()\<rparr>])
   \<and> - 1 \<notin> set (map id_tag [\<lparr>id_tag = 4, H = ()\<rparr>, \<lparr>id_tag = 0, H = ()\<rparr>, \<lparr>id_tag = 2, H = ()\<rparr>])
   \<and> (\<exists>out. removeDuplicates id_tag
               [\<lparr>id_tag = 4, H = ()\<rparr>, \<lparr>id_tag = 0, H = ()\<rparr>, \<lparr>id_tag = 2, H = ()\<rparr>] = Some out
         \<and> set out = {\<lparr>id_tag = 4, H = ()\<rparr>, \<lparr>id_tag = 0, H = ()\<rparr>, \<lparr>id_tag = 2, H = ()\<rparr>}
         \<and> distinct (map id_tag out))
   \<and> removeDuplicates_loop
         [\<lparr>id_tag = 2, H = ()\<rparr>, \<lparr>id_tag = 4, H = ()\<rparr>, \<lparr>id_tag = 0, H = ()\<rparr>] 0 False
       = Some [\<lparr>id_tag = 2, H = ()\<rparr>, \<lparr>id_tag = 4, H = ()\<rparr>, \<lparr>id_tag = 0, H = ()\<rparr>]"
proof -
  let ?ds = "[\<lparr>id_tag = 4, H = ()\<rparr>, \<lparr>id_tag = 0, H = ()\<rparr>, \<lparr>id_tag = 2, H = ()\<rparr>]"
  let ?ar = "[\<lparr>id_tag = 2, H = ()\<rparr>, \<lparr>id_tag = 4, H = ()\<rparr>, \<lparr>id_tag = 0, H = ()\<rparr>]"
  have h1: "distinct (map id_tag ?ds)" by simp
  have h2: "\<forall>d\<in>set ?ds. id_tag d \<noteq> -1" by simp
  have h3: "mset ?ar = mset ?ds" by simp
  from removeDuplicates_distinct_ids [OF h1 h2, of id_tag ?ar] h1 h2 h3 show ?thesis by auto
qed

text \<open>
  C2 as stated fails for negative ids: a single detection with the id \<open>-1\<close> is removed,
  because its id equals the default of \<open>id_next\<close>. The sort does not call the comparator on
  a one-element array, so the result is the same for every reading of the slots.
\<close>

theorem removeDuplicates_distinct_ids_counterexample:
  "distinct (map id_tag [\<lparr>id_tag = -1, H = ()\<rparr>])
   \<and> removeDuplicates id_tag [\<lparr>id_tag = -1, H = ()\<rparr>] = Some []
   \<and> set ([] :: unit apriltag_detection_t list) \<noteq> set [\<lparr>id_tag = -1, H = ()\<rparr>]"
  by (simp add: removeDuplicates_def zarray_sort_def removeDuplicates_loop.simps
        zarray_size_def zarray_get_def zarray_remove_index_def)

lemma removeDuplicates_level: "removeDuplicates level_bits ds = Some (scan False ds)"
proof -
  have "zarray_sort (idComparison level_bits) ds = ds"
    by (rule zarray_sort_level) (simp add: idComparison_def level_bits_def)
  then show ?thesis by (simp add: removeDuplicates_scan)
qed

lemma loop_from_start: "removeDuplicates_loop xs 0 False = Some (scan False xs)"
  using loop_scan [of "[]" xs False] by simp

text \<open>
  C1 fails on the code: the frame holds the ids \<open>3, 0, 3, 7\<close> and the comparator, reading
  slot bits, finds no two slots out of order, so the array stays in the decoder's order. The
  two detections with the id 3 are not neighbours, the scan never compares them and returns
  all four detections, where the claim has the two entries with the ids 0 and 7. The same
  happens on every array in which the two are apart, such as \<open>3, 7, 3, 0\<close>.
\<close>

theorem removeDuplicates_keeps_separated_duplicates:
  "removeDuplicates level_bits
     [\<lparr>id_tag = 3, H = ()\<rparr>, \<lparr>id_tag = 0, H = ()\<rparr>, \<lparr>id_tag = 3, H = ()\<rparr>, \<lparr>id_tag = 7, H = ()\<rparr>]
   = Some [\<lparr>id_tag = 3, H = ()\<rparr>, \<lparr>id_tag = 0, H = ()\<rparr>, \<lparr>id_tag = 3, H = ()\<rparr>,
           \<lparr>id_tag = 7, H = ()\<rparr>]
   \<and> removeDuplicates_loop
       [\<lparr>id_tag = 3, H = ()\<rparr>, \<lparr>id_tag = 7, H = ()\<rparr>, \<lparr>id_tag = 3, H = ()\<rparr>, \<lparr>id_tag = 0, H = ()\<rparr>]
       0 False
     = Some [\<lparr>id_tag = 3, H = ()\<rparr>, \<lparr>id_tag = 7, H = ()\<rparr>, \<lparr>id_tag = 3, H = ()\<rparr>,
             \<lparr>id_tag = 0, H = ()\<rparr>]"
  by (simp add: removeDuplicates_level loop_from_start)

text \<open>
  C9 fails on the code: the frame holds the ids \<open>5, 2, 2, 5\<close> in the order the sort leaves
  them. The first pass removes the two neighbours with the id 2 and returns the two
  detections with the id 5, which are neighbours only now; the second pass removes them.
  A second pass also differs when its sort leaves another order than the first: the scan
  returns the array \<open>5, 2, 5\<close> as it is, and from the same detections in the order
  \<open>2, 5, 5\<close> it returns the detection with the id 2 alone.
\<close>

theorem removeDuplicates_second_pass_differs:
  "removeDuplicates level_bits
     [\<lparr>id_tag = 5, H = ()\<rparr>, \<lparr>id_tag = 2, H = ()\<rparr>, \<lparr>id_tag = 2, H = ()\<rparr>, \<lparr>id_tag = 5, H = ()\<rparr>]
     = Some [\<lparr>id_tag = 5, H = ()\<rparr>, \<lparr>id_tag = 5, H = ()\<rparr>]
   \<and> removeDuplicates level_bits [\<lparr>id_tag = 5, H = ()\<rparr>, \<lparr>id_tag = 5, H = ()\<rparr>] = Some []
   \<and> removeDuplicates_loop
       [\<lparr>id_tag = 5, H = ()\<rparr>, \<lparr>id_tag = 2, H = ()\<rparr>, \<lparr>id_tag = 5, H = ()\<rparr>] 0 False
     = Some [\<lparr>id_tag = 5, H = ()\<rparr>, \<lparr>id_tag = 2, H = ()\<rparr>, \<lparr>id_tag = 5, H = ()\<rparr>]
   \<and> removeDuplicates_loop
       [\<lparr>id_tag = 2, H = ()\<rparr>, \<lparr>id_tag = 5, H = ()\<rparr>, \<lparr>id_tag = 5, H = ()\<rparr>] 0 False
     = Some [\<lparr>id_tag = 2, H = ()\<rparr>]"
  by (simp add: removeDuplicates_level loop_from_start)

subsection \<open>The scan on an array sorted by id\<close>

text \<open>
  The lemmas of this subsection are about \<open>removeDuplicates id_tag\<close>: the comparator the
  names in the code describe, one that reads the ids of the two detections. They show what
  the scan was written for and do not describe the code as the sort calls it. On an array
  sorted by id the scan returns exactly the detections whose id occurs once, unless the
  sentinel collides with a real id.
\<close>

lemma zarray_sort_sorted:
  "sorted (map slot_bits za) \<Longrightarrow> zarray_sort (idComparison slot_bits) za = za"
proof (induction za)
  case Nil
  show ?case by (simp add: zarray_sort_def)
next
  case (Cons x xs)
  then have "zarray_sort (idComparison slot_bits) xs = xs" by simp
  then have "zarray_sort (idComparison slot_bits) (x # xs)
               = zarray_insert (idComparison slot_bits) x xs"
    by (simp add: zarray_sort_def)
  also have "\<dots> = x # xs"
    using Cons.prems by (cases xs) (simp_all add: idComparison_le)
  finally show ?case .
qed

lemma scan_sorted:
  "sorted (map id_tag xs) \<Longrightarrow> scan dup xs = filter (kept xs dup) xs"
proof (induction dup xs rule: scan.induct)
  case (1 dup)
  show ?case by simp
next
  case (2 dup x)
  show ?case by (auto simp: kept_def)
next
  case (3 dup x y r)
  have srt: "sorted (map id_tag (y # r))" using "3.prems" by simp
  have le: "\<forall>d\<in>set (y # r). id_tag x \<le> id_tag d" using "3.prems" by auto
  have ley: "\<forall>d\<in>set r. id_tag y \<le> id_tag d" using "3.prems" by auto
  show ?case
  proof (cases "id_tag x = id_tag y")
    case True
    have "filter (kept (x # y # r) dup) (y # r) = filter (kept (y # r) True) (y # r)"
      by (rule filter_cong) (auto simp: kept_def True)
    moreover have "\<not> kept (x # y # r) dup x" by (simp add: kept_def True)
    ultimately show ?thesis using "3.IH"(1) [OF True srt] True by simp
  next
    case False
    hence lt: "id_tag x < id_tag y" using le by fastforce
    hence nx: "\<forall>d\<in>set (y # r). id_tag d \<noteq> id_tag x" using ley by fastforce
    hence cx: "count_list (map id_tag (y # r)) (id_tag x) = 0"
      by (simp only: count_list_0_iff) auto
    have "id_tag (last (y # r)) \<noteq> -1 \<or> id_tag x \<noteq> -1"
      using nx by (metis last_in_set list.distinct(1))
    hence kx: "kept (x # y # r) dup x \<longleftrightarrow> \<not> dup"
      using cx False by (auto simp: kept_def)
    have eq: "filter (kept (x # y # r) dup) (y # r) = filter (kept (y # r) False) (y # r)"
      by (rule filter_cong) (use nx in \<open>auto simp: kept_def\<close>)
    show ?thesis
    proof (cases dup)
      case True
      thus ?thesis using "3.IH"(2) [OF False True srt] False kx eq by simp
    next
      case dupF: False
      thus ?thesis using "3.IH"(3) [OF False dupF srt] False kx eq by simp
    qed
  qed
qed

lemma count_zarray_sort:
  "count_list (map id_tag (zarray_sort compar za)) k = count_list (map id_tag za) k"
proof -
  have "mset (map id_tag (zarray_sort compar za)) = mset (map id_tag za)"
    by (simp add: mset_zarray_sort)
  then show ?thesis by (metis count_mset)
qed

lemma sorted_last_max:
  "sorted (map id_tag xs) \<Longrightarrow> e \<in> set xs \<Longrightarrow> id_tag e \<le> id_tag (last xs)"
proof (induction xs)
  case Nil
  then show ?case by simp
next
  case (Cons a xs)
  then show ?case by (cases xs) auto
qed

lemma removeDuplicates_eq:
  "removeDuplicates id_tag ds = Some (filter (survives ds) (zarray_sort (idComparison id_tag) ds))"
proof -
  let ?s = "zarray_sort (idComparison id_tag) ds"
  have srt: "sorted (map id_tag ?s)" by (rule sorted_zarray_sort)
  have "removeDuplicates id_tag ds = Some (scan False ?s)"
    by (rule removeDuplicates_scan)
  also have "scan False ?s = filter (kept ?s False) ?s"
    by (rule scan_sorted [OF srt])
  also have "\<dots> = filter (survives ds) ?s"
  proof (rule filter_cong [OF refl])
    fix d assume d: "d \<in> set ?s"
    then have ne: "?s \<noteq> []" by auto
    have mx: "\<And>e. e \<in> set ds \<Longrightarrow> id_tag e \<le> id_tag (last ?s)"
      using sorted_last_max [OF srt] by (simp add: set_zarray_sort)
    have lst: "last ?s \<in> set ds"
      using last_in_set [OF ne] by (simp add: set_zarray_sort)
    have "id_tag d = -1 \<Longrightarrow> (id_tag (last ?s) = -1) = (\<forall>e\<in>set ds. id_tag e \<le> -1)"
      using mx lst d by (metis order_antisym set_zarray_sort)
    then show "kept ?s False d = survives ds d"
      by (auto simp: kept_def survives_def occurs_once_def count_zarray_sort)
  qed
  finally show ?thesis .
qed

lemma removeDuplicates_by_id:
  assumes "\<not> sentinel_collides ds"
  shows "\<exists>out. removeDuplicates id_tag ds = Some out
           \<and> mset out = mset (filter (occurs_once ds) ds)"
proof -
  have "filter (survives ds) ds = filter (occurs_once ds) ds"
    by (rule filter_cong [OF refl])
       (use assms in \<open>auto simp: survives_def occurs_once_def sentinel_collides_def\<close>)
  moreover have "mset (filter (survives ds) (zarray_sort (idComparison id_tag) ds))
               = mset (filter (survives ds) ds)"
    by (simp add: mset_zarray_sort)
  ultimately have "mset (filter (survives ds) (zarray_sort (idComparison id_tag) ds))
               = mset (filter (occurs_once ds) ds)"
    by (simp only:)
  then show ?thesis
    by (simp only: removeDuplicates_eq) blast
qed

section \<open>Properties of the corner points\<close>

lemma minor_times_offset_map:
  "Matx34d_times (get_minor_3_4 T) (x, y, z, 1) = offset_map T (x, y, z)"
  by (simp add: Matx34d_times_def get_minor_3_4_def row_times_def offset_map_def translate_def
        rotate_def rotation_of_def translation_of_def split: prod.splits)

lemma offset_map_eye: "offset_map Matx44d_eye p = p"
  by (simp add: offset_map_def translate_def rotate_def rotation_of_def translation_of_def
        Matx44d_eye_def split: prod.splits)

lemma addObjectPoints_eq:
  "addObjectPoints s T_oi objectPoints =
     objectPoints @ [offset_map T_oi (- s, - s, 0), offset_map T_oi (s, - s, 0),
                     offset_map T_oi (s, s, 0), offset_map T_oi (- s, s, 0)]"
  by (simp add: addObjectPoints_def push_back_def minor_times_offset_map)

lemma addImagePoints_eq:
  "addImagePoints hp detection imagePoints =
     imagePoints @ [hp (H detection) (-1) 1, hp (H detection) 1 1,
                    hp (H detection) 1 (-1), hp (H detection) (-1) (-1)]"
proof -
  have "[0..<4] = [0, 1, 2, 3::nat]" by (simp add: upt_rec)
  then show ?thesis
    by (simp add: addImagePoints_def push_back_def tag_x_def tag_y_def)
qed

text \<open>
  C4: called with \<open>s = size / 2\<close>, \<open>addObjectPoints\<close> appends exactly four points to the
  vector: the corners \<open>(-s, -s, 0)\<close>, \<open>(s, -s, 0)\<close>, \<open>(s, s, 0)\<close>, \<open>(-s, s, 0)\<close> of the
  square, in that order, each rotated by the rotation block of the offset transform and then
  translated by its translation column; with the identity offset the four appended points
  are the corners themselves. This holds for every size, positive or not.
\<close>

theorem addObjectPoints_corners:
  "addObjectPoints (tag_size / 2) T_oi objectPoints =
     objectPoints @ [offset_map T_oi (- (tag_size / 2), - (tag_size / 2), 0),
                     offset_map T_oi (tag_size / 2, - (tag_size / 2), 0),
                     offset_map T_oi (tag_size / 2, tag_size / 2, 0),
                     offset_map T_oi (- (tag_size / 2), tag_size / 2, 0)]
   \<and> addObjectPoints (tag_size / 2) Matx44d_eye objectPoints =
     objectPoints @ [(- (tag_size / 2), - (tag_size / 2), 0), (tag_size / 2, - (tag_size / 2), 0),
                     (tag_size / 2, tag_size / 2, 0), (- (tag_size / 2), tag_size / 2, 0)]"
  by (simp add: addObjectPoints_eq offset_map_eye)

text \<open>
  C5: \<open>addImagePoints\<close> appends exactly four image points, the projections of the tag-local
  coordinates \<open>(-1, 1)\<close>, \<open>(1, 1)\<close>, \<open>(1, -1)\<close>, \<open>(-1, -1)\<close> through the homography of the
  detection, in that order. The two sequences are aligned index by index: the image point
  that is the projection of \<open>(x, y)\<close> stands at the position of the object point with the
  local coordinates \<open>(s * x, - (s * y), 0)\<close>, so the sign of the y-axis is flipped when the
  points are built.
\<close>

theorem addImagePoints_corners:
  "addImagePoints project detection imagePoints =
     imagePoints @ [project (H detection) (-1) 1, project (H detection) 1 1,
                    project (H detection) 1 (-1), project (H detection) (-1) (-1)]
   \<and> addImagePoints project detection [] =
       map (\<lambda>(x, y). project (H detection) x y) [(-1, 1), (1, 1), (1, -1), (-1, -1)]
   \<and> addObjectPoints s T_oi [] =
       map (\<lambda>(x, y). offset_map T_oi (s * x, - (s * y), 0)) [(-1, 1), (1, 1), (1, -1), (-1, -1)]"
  by (simp add: addImagePoints_eq addObjectPoints_eq)

section \<open>Properties of the frame pipeline\<close>

lemma extend_nothing [simp]: "extend_acc m (\<lambda>n. []) = m"
  by (simp add: extend_acc_def)

lemma at_key_extend: "at_key (extend_acc m f) n = at_key m n @ f n"
  by (simp add: extend_acc_def at_key_def)

lemma extend_extend: "extend_acc (extend_acc m f) g = extend_acc m (\<lambda>n. f n @ g n)"
  by (rule ext) (simp add: extend_acc_def at_key_def)

lemma extend_upd:
  "pts \<noteq> [] \<Longrightarrow> (extend_acc m f)(k \<mapsto> at_key (extend_acc m f) k @ pts)
     = extend_acc m (\<lambda>n. f n @ (if n = k then pts else []))"
  by (rule ext) (simp add: extend_acc_def at_key_def)

lemma addObjectPoints_append:
  "addObjectPoints s T pts = pts @ addObjectPoints s T []"
  by (simp add: addObjectPoints_eq)

lemma addImagePoints_append:
  "addImagePoints hp d pts = pts @ addImagePoints hp d []"
  by (simp add: addImagePoints_eq)

lemma member_objectPoints_length: "length (member_objectPoints b d) = 4"
  by (simp add: member_objectPoints_def addObjectPoints_eq)

lemma member_imagePoints_length: "length (member_imagePoints ext d) = 4"
  by (simp add: member_imagePoints_def addImagePoints_eq)

lemma member_objectPoints_nonempty: "member_objectPoints b d \<noteq> []"
  using member_objectPoints_length [of b d] by auto

lemma member_imagePoints_nonempty: "member_imagePoints ext d \<noteq> []"
  using member_imagePoints_length [of ext d] by auto

lemma collect_bundle_member:
  assumes "is_member b d"
  shows "collect_bundle ext d (p, extend_acc m f, extend_acc m' g) b =
           (True, extend_acc m (\<lambda>n. f n @ (if n = bundle_name b then member_objectPoints b d else [])),
                  extend_acc m' (\<lambda>n. g n @ (if n = bundle_name b then member_imagePoints ext d else [])))"
proof -
  let ?k = "bundle_name b"
  have "addObjectPoints (memberSize b (id_tag d) / 2) (memberT_oi b (id_tag d))
          (at_key (extend_acc m f) ?k) = at_key (extend_acc m f) ?k @ member_objectPoints b d"
    unfolding member_objectPoints_def by (rule addObjectPoints_append)
  then have o: "(extend_acc m f)(?k \<mapsto>
             addObjectPoints (memberSize b (id_tag d) / 2) (memberT_oi b (id_tag d))
               (at_key (extend_acc m f) ?k))
           = extend_acc m (\<lambda>n. f n @ (if n = ?k then member_objectPoints b d else []))"
    using extend_upd [OF member_objectPoints_nonempty, of m f ?k b d] by (simp only:)
  have "addImagePoints (homography_project ext) d (at_key (extend_acc m' g) ?k)
          = at_key (extend_acc m' g) ?k @ member_imagePoints ext d"
    unfolding member_imagePoints_def by (rule addImagePoints_append)
  then have i: "(extend_acc m' g)(?k \<mapsto>
             addImagePoints (homography_project ext) d (at_key (extend_acc m' g) ?k))
           = extend_acc m' (\<lambda>n. g n @ (if n = ?k then member_imagePoints ext d else []))"
    using extend_upd [OF member_imagePoints_nonempty, of m' g ?k ext d] by (simp only:)
  show ?thesis
    using assms by (simp add: collect_bundle_def is_member_def Let_def o i)
qed

lemma collect_bundle_other:
  "\<not> is_member b d \<Longrightarrow> collect_bundle ext d acc b = acc"
  by (simp add: collect_bundle_def is_member_def Let_def split: prod.splits)

lemma collect_bundles:
  "foldl (collect_bundle ext d) (p, m, m') bundles =
     (p \<or> (\<exists>b\<in>set bundles. is_member b d),
      extend_acc m (\<lambda>n. concat (map (\<lambda>b. member_objectPoints b d) (containing bundles n d))),
      extend_acc m' (\<lambda>n. concat (map (\<lambda>b. member_imagePoints ext d) (containing bundles n d))))"
proof (induction bundles rule: rev_induct)
  case Nil
  show ?case by (simp add: containing_def)
next
  case (snoc b bundles)
  show ?case
  proof (cases "is_member b d")
    case True
    have "(\<lambda>n. concat (map (\<lambda>b. member_objectPoints b d) (containing bundles n d))
                 @ (if n = bundle_name b then member_objectPoints b d else []))
          = (\<lambda>n. concat (map (\<lambda>b. member_objectPoints b d) (containing (bundles @ [b]) n d)))"
      using True by (auto simp: containing_def)
    moreover
    have "(\<lambda>n. concat (map (\<lambda>b. member_imagePoints ext d) (containing bundles n d))
                 @ (if n = bundle_name b then member_imagePoints ext d else []))
          = (\<lambda>n. concat (map (\<lambda>b. member_imagePoints ext d) (containing (bundles @ [b]) n d)))"
      using True by (auto simp: containing_def)
    ultimately show ?thesis
      using True by (simp add: snoc.IH collect_bundle_member)
  next
    case False
    then have "containing (bundles @ [b]) n d = containing bundles n d" for n
      by (simp add: containing_def)
    then show ?thesis
      using False by (simp add: snoc.IH collect_bundle_other)
  qed
qed

lemma pooled_objectPoints_append:
  "pooled_objectPoints bundles (ds @ ds') n
     = pooled_objectPoints bundles ds n @ pooled_objectPoints bundles ds' n"
  by (simp add: pooled_objectPoints_def)

lemma pooled_imagePoints_append:
  "pooled_imagePoints ext bundles (ds @ ds') n
     = pooled_imagePoints ext bundles ds n @ pooled_imagePoints ext bundles ds' n"
  by (simp add: pooled_imagePoints_def)

lemma standalone_entries_append:
  "standalone_entries td ext hdr fx fy cx cy (ds @ ds')
     = standalone_entries td ext hdr fx fy cx cy ds @ standalone_entries td ext hdr fx fy cx cy ds'"
  by (simp add: standalone_entries_def)

lemma standalone_names_append:
  "standalone_names td (ds @ ds') = standalone_names td ds @ standalone_names td ds'"
  by (simp add: standalone_names_def)

lemma pooled_objectPoints_single:
  "pooled_objectPoints bundles [d]
     = (\<lambda>n. concat (map (\<lambda>b. member_objectPoints b d) (containing bundles n d)))"
  by (rule ext) (simp add: pooled_objectPoints_def)

lemma pooled_imagePoints_single:
  "pooled_imagePoints ext bundles [d]
     = (\<lambda>n. concat (map (\<lambda>b. member_imagePoints ext d) (containing bundles n d)))"
  by (rule ext) (simp add: pooled_imagePoints_def)

lemma process_detection_eq:
  "process_detection td ext hdr fx fy cx cy st d =
     st\<lparr>tag_detection_array := tag_detection_array st @ standalone_entries td ext hdr fx fy cx cy [d],
        detection_names := detection_names st @ standalone_names td [d],
        bundleObjectPoints :=
          extend_acc (bundleObjectPoints st) (pooled_objectPoints (tag_bundle_descriptions td) [d]),
        bundleImagePoints :=
          extend_acc (bundleImagePoints st) (pooled_imagePoints ext (tag_bundle_descriptions td) [d])\<rparr>"
  by (cases "standalone_tag_descriptions td (id_tag d)")
     (simp_all add: process_detection_def collect_bundles findStandaloneTagDescription_def
        standalone_entries_def standalone_names_def standalone_entry_def member_imagePoints_def
        pooled_objectPoints_single pooled_imagePoints_single push_back_def Let_def)

lemma process_detections:
  "foldl (process_detection td ext hdr fx fy cx cy) st ds =
     st\<lparr>tag_detection_array := tag_detection_array st @ standalone_entries td ext hdr fx fy cx cy ds,
        detection_names := detection_names st @ standalone_names td ds,
        bundleObjectPoints :=
          extend_acc (bundleObjectPoints st) (pooled_objectPoints (tag_bundle_descriptions td) ds),
        bundleImagePoints :=
          extend_acc (bundleImagePoints st) (pooled_imagePoints ext (tag_bundle_descriptions td) ds)\<rparr>"
proof (induction ds rule: rev_induct)
  case Nil
  show ?case
    by (simp add: standalone_entries_def standalone_names_def pooled_objectPoints_def
          pooled_imagePoints_def)
next
  case (snoc d ds)
  show ?case
    by (simp add: snoc.IH process_detection_eq [of _ _ _ _ _ _ _ _ d] extend_extend
          pooled_objectPoints_append pooled_imagePoints_append standalone_entries_append
          standalone_names_append)
qed

lemma estimate_bundle_eq:
  "estimate_bundle ext hdr fx fy cx cy st b =
     (if bundleObjectPoints st (bundle_name b) \<noteq> None
      then st\<lparr>tag_detection_array := tag_detection_array st @
                  [bundle_entry ext hdr fx fy cx cy (at_key (bundleObjectPoints st))
                     (at_key (bundleImagePoints st)) b],
                detection_names := detection_names st @ [bundle_name b]\<rparr>
      else st)"
  by (simp add: estimate_bundle_def bundle_entry_def push_back_def Let_def)

lemma estimate_bundles:
  "foldl (estimate_bundle ext hdr fx fy cx cy) st bundles =
     st\<lparr>tag_detection_array := tag_detection_array st @
          map (bundle_entry ext hdr fx fy cx cy (at_key (bundleObjectPoints st))
                 (at_key (bundleImagePoints st)))
            (filter (\<lambda>b. bundleObjectPoints st (bundle_name b) \<noteq> None) bundles),
        detection_names := detection_names st @
          map bundle_name (filter (\<lambda>b. bundleObjectPoints st (bundle_name b) \<noteq> None) bundles)\<rparr>"
proof (induction bundles rule: rev_induct)
  case Nil
  show ?case by simp
next
  case (snoc b bundles)
  have "foldl (estimate_bundle ext hdr fx fy cx cy) st (bundles @ [b])
          = estimate_bundle ext hdr fx fy cx cy
              (foldl (estimate_bundle ext hdr fx fy cx cy) st bundles) b"
    by simp
  also note snoc.IH
  finally show ?case
    by (simp add: estimate_bundle_eq)
qed

lemma extend_acc_empty_None:
  "extend_acc Map.empty f n \<noteq> None \<longleftrightarrow> f n \<noteq> []"
  by (simp add: extend_acc_def)

lemma extend_acc_empty_Some:
  "(\<exists>y. extend_acc Map.empty f n = Some y) \<longleftrightarrow> f n \<noteq> []"
  by (simp add: extend_acc_def)

lemma at_key_extend_empty: "at_key (extend_acc Map.empty f) = f"
  by (rule ext) (simp add: extend_acc_def at_key_def)

lemma estimate_poses_eq:
  "estimate_poses td ext hdr fx fy cx cy ds =
     \<lparr>array_header = hdr,
      array_detections = standalone_entries td ext hdr fx fy cx cy ds @
        map (bundle_entry ext hdr fx fy cx cy
               (pooled_objectPoints (tag_bundle_descriptions td) ds)
               (pooled_imagePoints ext (tag_bundle_descriptions td) ds))
          (filter (\<lambda>b. pooled_objectPoints (tag_bundle_descriptions td) ds (bundle_name b) \<noteq> [])
             (tag_bundle_descriptions td))\<rparr>"
  by (simp add: estimate_poses_def process_detections estimate_bundles
        extend_acc_empty_None extend_acc_empty_Some at_key_extend_empty)

lemma detectTags_returns:
  "\<exists>kept_detections. removeDuplicates slot_bits detected = Some kept_detections \<and>
     detectTags td ext slot_bits detected hdr fx fy cx cy
       = Some (estimate_poses td ext hdr fx fy cx cy kept_detections)"
proof -
  obtain ds where "removeDuplicates slot_bits detected = Some ds"
    using removeDuplicates_scan by blast
  then show ?thesis by (simp add: detectTags_def)
qed

lemmas frame_defs =
  detectTags_def estimate_poses_def process_detection_def collect_bundle_def estimate_bundle_def
  findStandaloneTagDescription_def estimatePose_def getRelativeTransform_def makeTagPose_def
  addObjectPoints_eq addImagePoints_eq at_key_def push_back_def bundleIds_def bundleSizes_def
  memberSize_def memberT_oi_def example_bundle_def addMemberTag_def TagBundleDescription_new_def
  example_collaborators_def translation_of_def rotation_of_def offset_map_eye Let_def

text \<open>
  C3 fails on the code: the accumulators are keyed by the name of the bundle and nothing
  keeps the names apart. Two bundles are named \<open>B\<close>, the first with the member 1 and the
  second with the member 2, and the frame holds one detection, of the tag 1. The second
  loop finds points under the name \<open>B\<close> for both bundles and appends an entry for the second
  bundle too, although none of its members was detected.
\<close>

theorem detectTags_shared_name_entry:
  "detectTags
     \<lparr>standalone_tag_descriptions = Map.empty,
      tag_bundle_descriptions = [example_bundle ''B'' [1], example_bundle ''B'' [2]]\<rparr>
     example_collaborators level_bits [\<lparr>id_tag = 1, H = ()\<rparr>] example_header 1 1 0 0
   = Some \<lparr>array_header = example_header,
           array_detections =
             [\<lparr>ids = [1], sizes = [1 / 10],
               pose = \<lparr>header = example_header, position = (4, 4, 1), orientation = (0, 0, 0, 1)\<rparr>\<rparr>,
              \<lparr>ids = [2], sizes = [1 / 10],
               pose = \<lparr>header = example_header, position = (4, 4, 1), orientation = (0, 0, 0, 1)\<rparr>\<rparr>]\<rparr>"
  by (simp add: removeDuplicates_level frame_defs)

text \<open>
  The pairs per observed member are not four either when duplicate removal leaves a
  repeated id in the array: the bundle \<open>B\<close> has the members 1, 2 and 3, the frame holds the
  ids \<open>1, 3, 1\<close> in the order the sort leaves them, all three detections survive, and the
  pose of the bundle is solved from twelve object and twelve image points for the two
  observed members.
\<close>

lemma detectTags_pools_repeated_id:
  "detectTags
     \<lparr>standalone_tag_descriptions = Map.empty,
      tag_bundle_descriptions = [example_bundle ''B'' [1, 2, 3]]\<rparr>
     example_collaborators level_bits
     [\<lparr>id_tag = 1, H = ()\<rparr>, \<lparr>id_tag = 3, H = ()\<rparr>, \<lparr>id_tag = 1, H = ()\<rparr>] example_header 1 1 0 0
   = Some \<lparr>array_header = example_header,
           array_detections =
             [\<lparr>ids = [1, 2, 3], sizes = [1 / 10, 1 / 10, 1 / 10],
               pose = \<lparr>header = example_header, position = (12, 12, 1),
                        orientation = (0, 0, 0, 1)\<rparr>\<rparr>]\<rparr>"
  by (simp add: removeDuplicates_level frame_defs)

lemma process_detection_unrecognized:
  assumes "standalone_tag_descriptions td (id_tag d) = None"
    and "\<forall>b\<in>set (tag_bundle_descriptions td). id2idx b (id_tag d) = None"
  shows "process_detection td ext hdr fx fy cx cy st d = st"
proof -
  have "containing (tag_bundle_descriptions td) n d = []" for n
    using assms(2) by (simp add: containing_def is_member_def filter_empty_conv)
  then show ?thesis
    using assms(1)
    by (simp add: process_detection_eq standalone_entries_def standalone_names_def
          pooled_objectPoints_single pooled_imagePoints_single)
qed

text \<open>
  C8: a detection whose id has no standalone description and is in no bundle's index leaves
  the state of the frame unchanged: no point is added to an accumulator and no entry to the
  array. The rest of the frame is processed as if the detection were absent, and
  \<open>detectTags\<close> returns an array in every case.
\<close>

theorem unrecognized_detection_skipped:
  assumes "standalone_tag_descriptions td (id_tag d) = None"
    and "\<forall>b\<in>set (tag_bundle_descriptions td). id2idx b (id_tag d) = None"
  shows "process_detection td ext hdr fx fy cx cy st d = st
     \<and> estimate_poses td ext hdr fx fy cx cy (ds1 @ d # ds2)
         = estimate_poses td ext hdr fx fy cx cy (ds1 @ ds2)
     \<and> (\<exists>result. detectTags td ext slot_bits detected hdr fx fy cx cy = Some result)
     \<and> (removeDuplicates slot_bits detected = Some (ds1 @ d # ds2) \<longrightarrow>
          detectTags td ext slot_bits detected hdr fx fy cx cy
            = Some (estimate_poses td ext hdr fx fy cx cy (ds1 @ ds2)))"
proof -
  note skip = process_detection_unrecognized [OF assms]
  have same: "estimate_poses td ext hdr fx fy cx cy (ds1 @ d # ds2)
         = estimate_poses td ext hdr fx fy cx cy (ds1 @ ds2)"
    by (simp add: estimate_poses_def skip)
  moreover have "\<exists>result. detectTags td ext slot_bits detected hdr fx fy cx cy = Some result"
    using detectTags_returns [of slot_bits detected td ext hdr fx fy cx cy] by blast
  moreover have "detectTags td ext slot_bits detected hdr fx fy cx cy
            = Some (estimate_poses td ext hdr fx fy cx cy (ds1 @ ds2))"
    if "removeDuplicates slot_bits detected = Some (ds1 @ d # ds2)"
    using that same by (simp add: detectTags_def)
  ultimately show ?thesis using skip by blast
qed

theorem unrecognized_detection_skipped_witness:
  "standalone_tag_descriptions
     \<lparr>standalone_tag_descriptions =
        [5 \<mapsto> \<lparr>standalone_id = 5, standalone_size = 1 / 10, frame_name = ''tag_5''\<rparr>],
      tag_bundle_descriptions = [example_bundle ''B'' [1, 2]]\<rparr> (id_tag \<lparr>id_tag = 9, H = ()\<rparr>) = None
   \<and> removeDuplicates id_tag [\<lparr>id_tag = 9, H = ()\<rparr>, \<lparr>id_tag = 5, H = ()\<rparr>]
       = Some ([\<lparr>id_tag = 5, H = ()\<rparr>] @ \<lparr>id_tag = 9, H = ()\<rparr> # [])
   \<and> detectTags
       \<lparr>standalone_tag_descriptions =
          [5 \<mapsto> \<lparr>standalone_id = 5, standalone_size = 1 / 10, frame_name = ''tag_5''\<rparr>],
        tag_bundle_descriptions = [example_bundle ''B'' [1, 2]]\<rparr>
       example_collaborators id_tag [\<lparr>id_tag = 9, H = ()\<rparr>, \<lparr>id_tag = 5, H = ()\<rparr>]
       example_header 1 1 0 0
     = Some \<lparr>array_header = example_header,
             array_detections =
               [\<lparr>ids = [5], sizes = [1 / 10],
                 pose = \<lparr>header = example_header, position = (4, 4, 1),
                          orientation = (0, 0, 0, 1)\<rparr>\<rparr>]\<rparr>"
proof -
  let ?td = "\<lparr>standalone_tag_descriptions =
          [5 \<mapsto> \<lparr>standalone_id = 5, standalone_size = 1 / 10, frame_name = ''tag_5''\<rparr>],
        tag_bundle_descriptions = [example_bundle ''B'' [1, 2]]\<rparr>"
  let ?d9 = "\<lparr>id_tag = 9, H = ()\<rparr>"
  let ?d5 = "\<lparr>id_tag = 5, H = ()\<rparr>"
  have h1: "standalone_tag_descriptions ?td (id_tag ?d9) = None" by simp
  have h2: "\<forall>b\<in>set (tag_bundle_descriptions ?td). id2idx b (id_tag ?d9) = None"
    by (simp add: example_bundle_def addMemberTag_def TagBundleDescription_new_def)
  have k: "removeDuplicates id_tag [?d9, ?d5] = Some ([?d5] @ ?d9 # [])"
    by (simp add: removeDuplicates_def zarray_sort_def idComparison_def
          removeDuplicates_loop.simps zarray_size_def zarray_get_def zarray_remove_index_def)
  have e: "estimate_poses ?td example_collaborators example_header 1 1 0 0 ([?d5] @ [])
      = \<lparr>array_header = example_header,
             array_detections =
               [\<lparr>ids = [5], sizes = [1 / 10],
                 pose = \<lparr>header = example_header, position = (4, 4, 1),
                          orientation = (0, 0, 0, 1)\<rparr>\<rparr>]\<rparr>"
    by (simp add: frame_defs)
  from unrecognized_detection_skipped [OF h1 h2, of example_collaborators example_header 1 1 0 0
         _ "[?d5]" "[]" id_tag "[?d9, ?d5]"] k e h1
  show ?thesis by simp
qed

lemma concat_map_member:
  "x \<in> set xs \<Longrightarrow> \<exists>pre post. concat (map f xs) = pre @ f x @ post"
proof -
  assume "x \<in> set xs"
  then obtain ys zs where "xs = ys @ x # zs" by (auto dest: split_list)
  then have "concat (map f xs) = concat (map f ys) @ f x @ concat (map f zs)" by simp
  then show ?thesis by blast
qed

lemma pooled_objectPoints_contains:
  assumes "d \<in> set ds" and "b \<in> set bundles" and "is_member b d"
  shows "\<exists>pre post. pooled_objectPoints bundles ds (bundle_name b)
            = pre @ member_objectPoints b d @ post"
proof -
  have "b \<in> set (containing bundles (bundle_name b) d)"
    using assms(2,3) by (simp add: containing_def)
  from concat_map_member [OF this, of "\<lambda>b. member_objectPoints b d"] obtain p1 q1
    where inner: "concat (map (\<lambda>b. member_objectPoints b d) (containing bundles (bundle_name b) d))
                    = p1 @ member_objectPoints b d @ q1" by blast
  from concat_map_member [OF assms(1),
      of "\<lambda>d. concat (map (\<lambda>b. member_objectPoints b d) (containing bundles (bundle_name b) d))"]
  obtain p2 q2 where "pooled_objectPoints bundles ds (bundle_name b)
      = p2 @ concat (map (\<lambda>b. member_objectPoints b d) (containing bundles (bundle_name b) d)) @ q2"
    unfolding pooled_objectPoints_def by blast
  with inner have "pooled_objectPoints bundles ds (bundle_name b)
      = (p2 @ p1) @ member_objectPoints b d @ (q1 @ q2)" by simp
  then show ?thesis by blast
qed

lemma pooled_imagePoints_contains:
  assumes "d \<in> set ds" and "b \<in> set bundles" and "is_member b d"
  shows "\<exists>pre post. pooled_imagePoints ext bundles ds (bundle_name b)
            = pre @ member_imagePoints ext d @ post"
proof -
  have "b \<in> set (containing bundles (bundle_name b) d)"
    using assms(2,3) by (simp add: containing_def)
  from concat_map_member [OF this, of "\<lambda>b. member_imagePoints ext d"] obtain p1 q1
    where inner: "concat (map (\<lambda>b. member_imagePoints ext d) (containing bundles (bundle_name b) d))
                    = p1 @ member_imagePoints ext d @ q1" by blast
  from concat_map_member [OF assms(1),
      of "\<lambda>d. concat (map (\<lambda>b. member_imagePoints ext d) (containing bundles (bundle_name b) d))"]
  obtain p2 q2 where "pooled_imagePoints ext bundles ds (bundle_name b)
      = p2 @ concat (map (\<lambda>b. member_imagePoints ext d) (containing bundles (bundle_name b) d)) @ q2"
    unfolding pooled_imagePoints_def by blast
  with inner have "pooled_imagePoints ext bundles ds (bundle_name b)
      = (p2 @ p1) @ member_imagePoints ext d @ (q1 @ q2)" by simp
  then show ?thesis by blast
qed

section \<open>Properties of the loader\<close>

lemma bind_result_Inr [simp]: "bind_result (Inr v) f = f v"
  by (simp add: bind_result_def)

lemma bind_result_Inl [simp]: "bind_result (Inl e) f = Inl e"
  by (simp add: bind_result_def)

lemma ROS_ASSERT_simps [simp]:
  "ROS_ASSERT True = Inr ()" "ROS_ASSERT False = Inl AssertionFailed"
  by (simp_all add: ROS_ASSERT_def)

lemma xmlRpcGetDoubleWithDefault_number:
  assumes "optional_number tag field"
  shows "\<exists>v. xmlRpcGetDoubleWithDefault tag field dflt = Inr v"
proof -
  from assms obtain m where tag: "tag = XStruct m" by (cases tag) auto
  show ?thesis
  proof (cases "map_of m field")
    case None
    then show ?thesis by (simp add: xmlRpcGetDoubleWithDefault_def tag)
  next
    case (Some v)
    with assms tag show ?thesis
      by (cases v) (simp_all add: xmlRpcGetDoubleWithDefault_def)
  qed
qed

lemma parse_member_well_typed:
  assumes "well_typed_member tag"
  shows "size_mismatch td tag \<Longrightarrow> parse_member td rot b tag = Inl AssertionFailed"
    and "\<not> size_mismatch td tag \<Longrightarrow> \<exists>b'. parse_member td rot b tag = Inr b'"
proof -
  from assms have did: "declared_id tag \<noteq> None" and dsz: "declared_size tag \<noteq> None"
    by (simp_all add: well_typed_member_def)
  from did obtain m where tag: "tag = XStruct m"
    by (cases tag) simp_all
  from did tag obtain i where i: "map_of m ''id'' = Some (XInt i)"
    by (auto split: option.splits XmlRpcValue.splits)
  from dsz tag obtain s where s: "map_of m ''size'' = Some (XDouble s)"
    by (auto split: option.splits XmlRpcValue.splits)
  have num: "optional_number tag ''x''" "optional_number tag ''y''" "optional_number tag ''z''"
    "optional_number tag ''qw''" "optional_number tag ''qx''" "optional_number tag ''qy''"
    "optional_number tag ''qz''"
    using assms by (simp_all add: well_typed_member_def)
  obtain x where x: "xmlRpcGetDoubleWithDefault tag ''x'' 0 = Inr x"
    using xmlRpcGetDoubleWithDefault_number [OF num(1)] by blast
  obtain y where y: "xmlRpcGetDoubleWithDefault tag ''y'' 0 = Inr y"
    using xmlRpcGetDoubleWithDefault_number [OF num(2)] by blast
  obtain z where z: "xmlRpcGetDoubleWithDefault tag ''z'' 0 = Inr z"
    using xmlRpcGetDoubleWithDefault_number [OF num(3)] by blast
  obtain qw where qw: "xmlRpcGetDoubleWithDefault tag ''qw'' 1 = Inr qw"
    using xmlRpcGetDoubleWithDefault_number [OF num(4)] by blast
  obtain qx where qx: "xmlRpcGetDoubleWithDefault tag ''qx'' 0 = Inr qx"
    using xmlRpcGetDoubleWithDefault_number [OF num(5)] by blast
  obtain qy where qy: "xmlRpcGetDoubleWithDefault tag ''qy'' 0 = Inr qy"
    using xmlRpcGetDoubleWithDefault_number [OF num(6)] by blast
  obtain qz where qz: "xmlRpcGetDoubleWithDefault tag ''qz'' 0 = Inr qz"
    using xmlRpcGetDoubleWithDefault_number [OF num(7)] by blast
  have read: "parse_member td rot b tag =
      bind_result
       (case standalone_tag_descriptions td i of
          Some standaloneDescription \<Rightarrow> ROS_ASSERT (s = standalone_size standaloneDescription)
        | None \<Rightarrow> Inr ())
       (\<lambda>_. case rot (qw, qx, qy, qz) of
          ((r00, r01, r02), (r10, r11, r12), (r20, r21, r22)) \<Rightarrow>
            Inr (addMemberTag b i s
                  ((r00, r01, r02, x), (r10, r11, r12, y), (r20, r21, r22, z), (0, 0, 0, 1))))"
    unfolding parse_member_def x y z qw qx qy qz
    by (simp add: findStandaloneTagDescription_def tag i s)
  have mis: "size_mismatch td tag \<longleftrightarrow>
      (case standalone_tag_descriptions td i of None \<Rightarrow> False
       | Some d \<Rightarrow> s \<noteq> standalone_size d)"
  proof -
    have "declared_id tag = Some i" and "declared_size tag = Some s"
      by (simp_all add: tag i s)
    then show ?thesis by (simp add: size_mismatch_def split: option.splits)
  qed
  show "size_mismatch td tag \<Longrightarrow> parse_member td rot b tag = Inl AssertionFailed"
    unfolding read mis by (cases "standalone_tag_descriptions td i") auto
  show "\<not> size_mismatch td tag \<Longrightarrow> \<exists>b'. parse_member td rot b tag = Inr b'"
    unfolding read mis
    by (cases "standalone_tag_descriptions td i") (auto split: prod.splits)
qed

lemma parse_members_well_typed:
  "list_all well_typed_member member_tags \<Longrightarrow>
     (if \<exists>tag\<in>set member_tags. size_mismatch td tag
      then parse_members td rot b member_tags = Inl AssertionFailed
      else \<exists>b'. parse_members td rot b member_tags = Inr b')"
proof (induction member_tags arbitrary: b)
  case Nil
  show ?case by simp
next
  case (Cons tag member_tags)
  from Cons.prems have wt: "well_typed_member tag"
    and wts: "list_all well_typed_member member_tags"
    by simp_all
  show ?case
  proof (cases "size_mismatch td tag")
    case True
    then show ?thesis by (simp add: parse_member_well_typed(1) [OF wt])
  next
    case False
    then obtain b' where "parse_member td rot b tag = Inr b'"
      using parse_member_well_typed(2) [OF wt] by blast
    then show ?thesis
      using Cons.IH [OF wts, of b'] False by simp
  qed
qed

lemma parse_bundle_reads_members:
  assumes "well_typed_bundle bundle_description"
  shows "\<exists>bundleName. parse_bundle td rot i bundle_description
           = parse_members td rot (TagBundleDescription_new bundleName)
               (members_of bundle_description)"
proof -
  from assms obtain m where bd: "bundle_description = XStruct m"
    by (cases bundle_description) (simp_all add: well_typed_bundle_def)
  from assms have "layout_of (XStruct m) \<noteq> None"
    by (simp add: well_typed_bundle_def bd split: option.splits)
  then obtain lv where lv: "map_of m ''layout'' = Some lv"
    by (cases "map_of m ''layout''") simp_all
  with \<open>layout_of (XStruct m) \<noteq> None\<close> obtain member_tags where lay: "lv = XArray member_tags"
    by (cases lv) simp_all
  have mem: "members_of bundle_description = member_tags"
    by (simp add: members_of_def bd lv lay)
  show ?thesis
  proof (cases "map_of m ''name''")
    case None
    have "parse_bundle td rot i bundle_description
            = parse_members td rot (TagBundleDescription_new (''bundle_'' @ decimal i)) member_tags"
      by (simp add: parse_bundle_def bd lv lay None Let_def)
    then show ?thesis unfolding mem by blast
  next
    case (Some v)
    from assms have "optional_name (XStruct m)"
      by (simp add: well_typed_bundle_def bd)
    then obtain s where v: "v = XString s"
      using Some by (cases v) simp_all
    have "parse_bundle td rot i bundle_description
            = parse_members td rot (TagBundleDescription_new s) member_tags"
      by (simp add: parse_bundle_def bd lv lay Some v Let_def)
    then show ?thesis unfolding mem by blast
  qed
qed

lemma parse_bundle_well_typed:
  assumes "well_typed_bundle bundle_description"
  shows "if \<exists>tag\<in>set (members_of bundle_description). size_mismatch td tag
         then parse_bundle td rot i bundle_description = Inl AssertionFailed
         else \<exists>b. parse_bundle td rot i bundle_description = Inr b"
proof -
  from parse_bundle_reads_members [OF assms, of td rot i] obtain bundleName
    where eq: "parse_bundle td rot i bundle_description
           = parse_members td rot (TagBundleDescription_new bundleName)
               (members_of bundle_description)"
    by blast
  have "list_all well_typed_member (members_of bundle_description)"
    using assms by (simp add: well_typed_bundle_def members_of_def split: option.splits)
  then show ?thesis
    unfolding eq by (rule parse_members_well_typed)
qed

lemma parse_bundles_well_typed:
  "list_all well_typed_bundle bs \<Longrightarrow>
     (if \<exists>tag\<in>set (concat (map members_of bs)). size_mismatch td tag
      then parse_bundles td rot i descriptions bs = Inl AssertionFailed
      else \<exists>result. parse_bundles td rot i descriptions bs = Inr result)"
proof (induction bs arbitrary: i descriptions)
  case Nil
  show ?case by simp
next
  case (Cons bd bs)
  from Cons.prems have wt: "well_typed_bundle bd" and wts: "list_all well_typed_bundle bs"
    by simp_all
  show ?case
  proof (cases "\<exists>tag\<in>set (members_of bd). size_mismatch td tag")
    case True
    then have "parse_bundle td rot i bd = Inl AssertionFailed"
      using parse_bundle_well_typed [OF wt, of td rot i] by simp
    moreover have "\<exists>tag\<in>set (concat (map members_of (bd # bs))). size_mismatch td tag"
      using True by auto
    ultimately show ?thesis by simp
  next
    case False
    then obtain b where pb: "parse_bundle td rot i bd = Inr b"
      using parse_bundle_well_typed [OF wt, of td rot i] by auto
    have e: "parse_bundles td rot i descriptions (bd # bs)
               = parse_bundles td rot (Suc i) (push_back descriptions b) bs"
      using pb by simp
    have p: "(\<exists>tag\<in>set (concat (map members_of (bd # bs))). size_mismatch td tag)
               = (\<exists>tag\<in>set (concat (map members_of bs)). size_mismatch td tag)"
      using False by auto
    show ?thesis
      unfolding e p by (rule Cons.IH [OF wts])
  qed
qed

lemma parseTagBundles_well_typed:
  assumes "well_typed_bundles tag_bundles"
  shows "if \<exists>tag\<in>set (all_members tag_bundles). size_mismatch td tag
         then parseTagBundles td rot tag_bundles = Inl AssertionFailed
         else \<exists>result. parseTagBundles td rot tag_bundles = Inr result"
proof -
  from assms obtain bs where tb: "tag_bundles = XArray bs" and wts: "list_all well_typed_bundle bs"
    by (cases tag_bundles) (auto simp: well_typed_bundles_def)
  show ?thesis
    using parse_bundles_well_typed [OF wts, of td rot 0 "[]"]
    by (simp add: parseTagBundles_def tb all_members_def)
qed

lemma isl_bind_cong:
  "(\<And>v. isl (f v) = isl (g v)) \<Longrightarrow> isl (bind_result r f) = isl (bind_result r g)"
  by (cases r) simp_all

lemma isl_bind_result:
  "isl (bind_result r f) \<longleftrightarrow> isl r \<or> (\<exists>v. r = Inr v \<and> isl (f v))"
  by (cases r) simp_all

lemma parse_member_isl:
  "isl (parse_member td rot b tag) = isl (parse_member td rot b' tag)"
  unfolding parse_member_def
  by (intro isl_bind_cong) (simp split: prod.splits)

lemma parse_members_isl:
  "isl (parse_members td rot b member_tags) = isl (parse_members td rot b' member_tags)"
proof (induction member_tags arbitrary: b b')
  case Nil
  show ?case by simp
next
  case (Cons tag member_tags)
  have "isl (parse_members td rot c (tag # member_tags))
          \<longleftrightarrow> isl (parse_member td rot b tag)
              \<or> isl (parse_members td rot b member_tags)" for c
  proof (cases "parse_member td rot c tag")
    case (Inl e)
    then have "isl (parse_member td rot b tag)"
      using parse_member_isl [of td rot c tag b] by simp
    with Inl show ?thesis by simp
  next
    case (Inr c')
    then have "\<not> isl (parse_member td rot b tag)"
      using parse_member_isl [of td rot c tag b] by simp
    with Inr show ?thesis using Cons.IH [of c' b] by simp
  qed
  from this [of b] this [of b'] show ?case by simp
qed

lemma parse_bundle_isl:
  "isl (parse_bundle td rot i bundle_description) = isl (parse_bundle td rot j bundle_description)"
proof (cases "hasMember bundle_description ''name''")
  case True
  show ?thesis unfolding parse_bundle_def by (simp add: True)
next
  case False
  show ?thesis
    unfolding parse_bundle_def
    by (simp add: False Let_def) (intro isl_bind_cong parse_members_isl)
qed

lemma parse_bundles_isl:
  "isl (parse_bundles td rot i descriptions bs)
     \<longleftrightarrow> (\<exists>bundle_description\<in>set bs. isl (parse_bundle td rot 0 bundle_description))"
proof (induction bs arbitrary: i descriptions)
  case Nil
  show ?case by simp
next
  case (Cons bd bs)
  show ?case
  proof (cases "parse_bundle td rot i bd")
    case (Inl e)
    then have "isl (parse_bundle td rot 0 bd)"
      using parse_bundle_isl [of td rot i bd 0] by simp
    with Inl show ?thesis by simp
  next
    case (Inr b)
    then have "\<not> isl (parse_bundle td rot 0 bd)"
      using parse_bundle_isl [of td rot i bd 0] by simp
    with Inr show ?thesis
      using Cons.IH [of "Suc i" "push_back descriptions b"] by simp
  qed
qed

lemma parseTagBundles_isl:
  "isl (parseTagBundles td rot (XArray bs))
     \<longleftrightarrow> (\<exists>bundle_description\<in>set bs. isl (parse_bundle td rot 0 bundle_description))"
  by (simp add: parseTagBundles_def parse_bundles_isl)

text \<open>
  C6: for a configuration whose fields have the types the parser asserts,
  \<open>parseTagBundles\<close> fails, with a failed assertion, if and only if some bundle member has
  a standalone description of the same id with a different size, and the parsing of a single
  member fails exactly when that member has such a mismatch. Frames are processed
  without any comparison of sizes: \<open>detectTags\<close> returns an array for every detector state.
\<close>

theorem size_mismatch_fails_at_load:
  assumes "well_typed_bundles tag_bundles"
  shows "(isl (parseTagBundles td toRotationMatrix tag_bundles)
            \<longleftrightarrow> (\<exists>tag\<in>set (all_members tag_bundles). size_mismatch td tag))
     \<and> ((\<exists>tag\<in>set (all_members tag_bundles). size_mismatch td tag)
            \<longrightarrow> parseTagBundles td toRotationMatrix tag_bundles = Inl AssertionFailed)
     \<and> (\<forall>tag\<in>set (all_members tag_bundles).
            isl (parse_member td toRotationMatrix bundle_i tag) \<longleftrightarrow> size_mismatch td tag)
     \<and> (\<exists>result. detectTags td' ext slot_bits detected hdr fx fy cx cy = Some result)"
proof -
  have run: "\<exists>result. detectTags td' ext slot_bits detected hdr fx fy cx cy = Some result"
    using detectTags_returns [of slot_bits detected td' ext hdr fx fy cx cy] by blast
  have member: "isl (parse_member td toRotationMatrix bundle_i tag) \<longleftrightarrow> size_mismatch td tag"
    if "tag \<in> set (all_members tag_bundles)" for tag
  proof -
    from assms that obtain bs bd where "tag_bundles = XArray bs" "bd \<in> set bs"
      "tag \<in> set (members_of bd)" "well_typed_bundle bd"
      by (cases tag_bundles) (auto simp: well_typed_bundles_def all_members_def list_all_iff)
    then have wt: "well_typed_member tag"
      by (auto simp: well_typed_bundle_def members_of_def list_all_iff split: option.splits)
    show ?thesis
      using parse_member_well_typed [OF wt, of td toRotationMatrix bundle_i]
      by (cases "size_mismatch td tag") auto
  qed
  have whole: "(isl (parseTagBundles td toRotationMatrix tag_bundles)
            \<longleftrightarrow> (\<exists>tag\<in>set (all_members tag_bundles). size_mismatch td tag))
     \<and> ((\<exists>tag\<in>set (all_members tag_bundles). size_mismatch td tag)
            \<longrightarrow> parseTagBundles td toRotationMatrix tag_bundles = Inl AssertionFailed)"
    using parseTagBundles_well_typed [OF assms, of td toRotationMatrix]
    by (auto split: if_splits)
  from whole member run show ?thesis by blast
qed

theorem size_mismatch_fails_at_load_witness:
  "well_typed_bundles
     (XArray [XStruct [(''name'', XString ''B''),
                       (''layout'', XArray [XStruct [(''id'', XInt 5), (''size'', XDouble (1 / 5))]])]])
   \<and> parseTagBundles
       \<lparr>standalone_tag_descriptions =
          [5 \<mapsto> \<lparr>standalone_id = 5, standalone_size = 1 / 10, frame_name = ''tag_5''\<rparr>],
        tag_bundle_descriptions = []\<rparr>
       example_toRotationMatrix
       (XArray [XStruct [(''name'', XString ''B''),
                         (''layout'', XArray [XStruct [(''id'', XInt 5), (''size'', XDouble (1 / 5))]])]])
     = Inl AssertionFailed
   \<and> (\<exists>descriptions. parseTagBundles
       \<lparr>standalone_tag_descriptions =
          [5 \<mapsto> \<lparr>standalone_id = 5, standalone_size = 1 / 5, frame_name = ''tag_5''\<rparr>],
        tag_bundle_descriptions = []\<rparr>
       example_toRotationMatrix
       (XArray [XStruct [(''name'', XString ''B''),
                         (''layout'', XArray [XStruct [(''id'', XInt 5), (''size'', XDouble (1 / 5))]])]])
     = Inr descriptions)"
proof -
  let ?cfg = "XArray [XStruct [(''name'', XString ''B''),
                       (''layout'', XArray [XStruct [(''id'', XInt 5), (''size'', XDouble (1 / 5))]])]]"
  let ?td = "\<lambda>s. \<lparr>standalone_tag_descriptions =
          [5 \<mapsto> \<lparr>standalone_id = 5, standalone_size = s, frame_name = ''tag_5''\<rparr>],
        tag_bundle_descriptions = []\<rparr>"
  have wt: "well_typed_bundles ?cfg"
    by (simp add: well_typed_bundles_def well_typed_bundle_def well_typed_member_def)
  have bad: "\<exists>tag\<in>set (all_members ?cfg). size_mismatch (?td (1 / 10)) tag"
    by (simp add: all_members_def members_of_def size_mismatch_def)
  have good: "\<not> (\<exists>tag\<in>set (all_members ?cfg). size_mismatch (?td (1 / 5)) tag)"
    by (simp add: all_members_def members_of_def size_mismatch_def)
  from size_mismatch_fails_at_load [OF wt, of "?td (1 / 10)" example_toRotationMatrix] bad
  have 1: "parseTagBundles (?td (1 / 10)) example_toRotationMatrix ?cfg = Inl AssertionFailed"
    by blast
  from size_mismatch_fails_at_load [OF wt, of "?td (1 / 5)" example_toRotationMatrix] good
  have "\<not> isl (parseTagBundles (?td (1 / 5)) example_toRotationMatrix ?cfg)"
    by blast
  then have 2: "\<exists>descriptions.
      parseTagBundles (?td (1 / 5)) example_toRotationMatrix ?cfg = Inr descriptions"
    by (cases "parseTagBundles (?td (1 / 5)) example_toRotationMatrix ?cfg") simp_all
  from wt 1 2 show ?thesis by blast
qed

lemma indexed_new: "indexed (TagBundleDescription_new bundleName)"
  by (simp add: indexed_def TagBundleDescription_new_def bundleIds_def)

lemma indexed_addMemberTag: "indexed b \<Longrightarrow> indexed (addMemberTag b tagID tag_size T)"
  by (auto simp: indexed_def addMemberTag_def bundleIds_def)

lemma bind_result_InrD:
  "bind_result r f = Inr y \<Longrightarrow> \<exists>v. r = Inr v \<and> f v = Inr y"
  by (cases r) simp_all

lemma parse_member_indexed:
  assumes "parse_member td rot b tag = Inr b'" and "indexed b"
  shows "indexed b'"
  using assms unfolding parse_member_def
  by (auto dest!: bind_result_InrD split: prod.splits simp: Let_def indexed_addMemberTag)

lemma parse_members_indexed:
  "parse_members td rot b member_tags = Inr b' \<Longrightarrow> indexed b \<Longrightarrow> indexed b'"
proof (induction member_tags arbitrary: b)
  case Nil
  then show ?case by simp
next
  case (Cons tag member_tags)
  from Cons.prems(1) obtain b1 where 1: "parse_member td rot b tag = Inr b1"
    and 2: "parse_members td rot b1 member_tags = Inr b'"
    by (auto dest!: bind_result_InrD)
  from parse_member_indexed [OF 1 Cons.prems(2)] have "indexed b1" .
  from Cons.IH [OF 2 this] show ?case .
qed

lemma parse_bundle_indexed:
  assumes "parse_bundle td rot i bundle_description = Inr b"
  shows "indexed b"
proof -
  from assms obtain bundleName member_tags
    where "parse_members td rot (TagBundleDescription_new bundleName) member_tags = Inr b"
    unfolding parse_bundle_def by (auto dest!: bind_result_InrD simp: Let_def)
  then show ?thesis using indexed_new by (rule parse_members_indexed)
qed

lemma parse_bundles_indexed:
  "parse_bundles td rot i descriptions bs = Inr result \<Longrightarrow>
     list_all indexed descriptions \<Longrightarrow> list_all indexed result"
proof (induction bs arbitrary: i descriptions)
  case Nil
  then show ?case by simp
next
  case (Cons bd bs)
  from Cons.prems(1) obtain b where 1: "parse_bundle td rot i bd = Inr b"
    and 2: "parse_bundles td rot (Suc i) (push_back descriptions b) bs = Inr result"
    by (auto dest!: bind_result_InrD)
  have "list_all indexed (push_back descriptions b)"
    using Cons.prems(2) parse_bundle_indexed [OF 1] by (simp add: push_back_def)
  from Cons.IH [OF 2 this] show ?case .
qed

lemma parseTagBundles_indexed:
  assumes "parseTagBundles td rot tag_bundles = Inr result"
  shows "list_all indexed result"
proof -
  from assms obtain bs where "parse_bundles td rot 0 [] bs = Inr result"
    unfolding parseTagBundles_def by (auto dest!: bind_result_InrD)
  then show ?thesis by (rule parse_bundles_indexed) simp
qed

text \<open>
  C7: a surviving detection whose id is in the index of several bundles contributes to each
  of them. After the loop over the detections, the accumulators of every bundle that
  contains the id hold the four object points and the four image points of the detection,
  the bundle has an entry in the returned array, and the pose of that entry is solved from
  points that include this contribution. Loading does not compare bundles with each other:
  a list of bundles is rejected exactly when one of its bundles is rejected on its own.
\<close>

theorem shared_member_feeds_every_bundle:
  assumes "d \<in> set kept_detections"
    and "b \<in> set (tag_bundle_descriptions td)"
    and "id2idx b (id_tag d) \<noteq> None"
  shows "(\<exists>objectPoints imagePoints pre post pre' post'.
            bundleObjectPoints (foldl (process_detection td ext hdr fx fy cx cy) st kept_detections)
              (bundle_name b)
              = Some (at_key (bundleObjectPoints st) (bundle_name b) @ objectPoints)
          \<and> bundleImagePoints (foldl (process_detection td ext hdr fx fy cx cy) st kept_detections)
              (bundle_name b)
              = Some (at_key (bundleImagePoints st) (bundle_name b) @ imagePoints)
          \<and> objectPoints = pre @ addObjectPoints (memberSize b (id_tag d) / 2)
                                  (memberT_oi b (id_tag d)) [] @ post
          \<and> imagePoints = pre' @ addImagePoints (homography_project ext) d [] @ post'
          \<and> \<lparr>ids = bundleIds b, sizes = bundleSizes b,
              pose = estimatePose ext hdr objectPoints imagePoints fx fy cx cy\<rparr>
              \<in> set (array_detections (estimate_poses td ext hdr fx fy cx cy kept_detections)))
     \<and> (isl (parseTagBundles td' toRotationMatrix (XArray bundle_descriptions))
          \<longleftrightarrow> (\<exists>bundle_description\<in>set bundle_descriptions.
                 isl (parse_bundle td' toRotationMatrix 0 bundle_description)))"
proof -
  let ?bs = "tag_bundle_descriptions td"
  let ?n = "bundle_name b"
  let ?op = "pooled_objectPoints ?bs kept_detections ?n"
  let ?ip = "pooled_imagePoints ext ?bs kept_detections ?n"
  have mem: "is_member b d" using assms(3) by (simp add: is_member_def)
  from pooled_objectPoints_contains [OF assms(1,2) mem] obtain pre post
    where op: "?op = pre @ member_objectPoints b d @ post" by blast
  from pooled_imagePoints_contains [OF assms(1,2) mem, of ext] obtain pre' post'
    where ip: "?ip = pre' @ member_imagePoints ext d @ post'" by blast
  have ne: "?op \<noteq> []" "?ip \<noteq> []"
    using op ip member_objectPoints_nonempty [of b d] member_imagePoints_nonempty [of ext d]
    by simp_all
  have acc1: "bundleObjectPoints (foldl (process_detection td ext hdr fx fy cx cy) st kept_detections) ?n
               = Some (at_key (bundleObjectPoints st) ?n @ ?op)"
    using ne(1) by (simp add: process_detections extend_acc_def)
  have acc2: "bundleImagePoints (foldl (process_detection td ext hdr fx fy cx cy) st kept_detections) ?n
               = Some (at_key (bundleImagePoints st) ?n @ ?ip)"
    using ne(2) by (simp add: process_detections extend_acc_def)
  have "bundle_entry ext hdr fx fy cx cy (pooled_objectPoints ?bs kept_detections)
          (pooled_imagePoints ext ?bs kept_detections) b
          \<in> set (array_detections (estimate_poses td ext hdr fx fy cx cy kept_detections))"
    using assms(2) ne(1) by (simp add: estimate_poses_eq)
  then have entry: "\<lparr>ids = bundleIds b, sizes = bundleSizes b,
              pose = estimatePose ext hdr ?op ?ip fx fy cx cy\<rparr>
              \<in> set (array_detections (estimate_poses td ext hdr fx fy cx cy kept_detections))"
    by (simp add: bundle_entry_def)
  have op': "?op = pre @ addObjectPoints (memberSize b (id_tag d) / 2)
                                  (memberT_oi b (id_tag d)) [] @ post"
    using op by (simp add: member_objectPoints_def)
  have ip': "?ip = pre' @ addImagePoints (homography_project ext) d [] @ post'"
    using ip by (simp add: member_imagePoints_def)
  from acc1 acc2 op' ip' entry
  have "\<exists>objectPoints imagePoints pre post pre' post'.
            bundleObjectPoints (foldl (process_detection td ext hdr fx fy cx cy) st kept_detections)
              (bundle_name b)
              = Some (at_key (bundleObjectPoints st) (bundle_name b) @ objectPoints)
          \<and> bundleImagePoints (foldl (process_detection td ext hdr fx fy cx cy) st kept_detections)
              (bundle_name b)
              = Some (at_key (bundleImagePoints st) (bundle_name b) @ imagePoints)
          \<and> objectPoints = pre @ addObjectPoints (memberSize b (id_tag d) / 2)
                                  (memberT_oi b (id_tag d)) [] @ post
          \<and> imagePoints = pre' @ addImagePoints (homography_project ext) d [] @ post'
          \<and> \<lparr>ids = bundleIds b, sizes = bundleSizes b,
              pose = estimatePose ext hdr objectPoints imagePoints fx fy cx cy\<rparr>
              \<in> set (array_detections (estimate_poses td ext hdr fx fy cx cy kept_detections))"
    by blast
  then show ?thesis
    using parseTagBundles_isl [of td' toRotationMatrix bundle_descriptions] by blast
qed

theorem shared_member_feeds_every_bundle_witness:
  "\<lparr>id_tag = 7, H = ()\<rparr> \<in> set [\<lparr>id_tag = 7, H = ()\<rparr>]
   \<and> example_bundle ''B'' [7] \<in> set (tag_bundle_descriptions
         \<lparr>standalone_tag_descriptions = Map.empty,
          tag_bundle_descriptions = [example_bundle ''A'' [7, 1], example_bundle ''B'' [7]]\<rparr>)
   \<and> id2idx (example_bundle ''B'' [7]) (id_tag \<lparr>id_tag = 7, H = ()\<rparr>) \<noteq> None
   \<and> id2idx (example_bundle ''A'' [7, 1]) (id_tag \<lparr>id_tag = 7, H = ()\<rparr>) \<noteq> None
   \<and> array_detections (estimate_poses
         \<lparr>standalone_tag_descriptions = Map.empty,
          tag_bundle_descriptions = [example_bundle ''A'' [7, 1], example_bundle ''B'' [7]]\<rparr>
         example_collaborators example_header 1 1 0 0 [\<lparr>id_tag = 7, H = ()\<rparr>])
       = [\<lparr>ids = [7, 1], sizes = [1 / 10, 1 / 10],
           pose = \<lparr>header = example_header, position = (4, 4, 1), orientation = (0, 0, 0, 1)\<rparr>\<rparr>,
          \<lparr>ids = [7], sizes = [1 / 10],
           pose = \<lparr>header = example_header, position = (4, 4, 1), orientation = (0, 0, 0, 1)\<rparr>\<rparr>]
   \<and> \<not> isl (parseTagBundles
         \<lparr>standalone_tag_descriptions = Map.empty, tag_bundle_descriptions = []\<rparr>
         example_toRotationMatrix
         (XArray [XStruct [(''name'', XString ''A''),
                           (''layout'', XArray [XStruct [(''id'', XInt 7), (''size'', XDouble (1 / 10))],
                                                XStruct [(''id'', XInt 1), (''size'', XDouble (1 / 10))]])],
                  XStruct [(''name'', XString ''B''),
                           (''layout'', XArray [XStruct [(''id'', XInt 7), (''size'', XDouble (1 / 10)),
                                                         (''x'', XDouble (1 / 2))]])]]))"
proof -
  let ?d = "\<lparr>id_tag = 7, H = ()\<rparr>"
  let ?td = "\<lparr>standalone_tag_descriptions = Map.empty,
          tag_bundle_descriptions = [example_bundle ''A'' [7, 1], example_bundle ''B'' [7]]\<rparr>"
  let ?td' = "\<lparr>standalone_tag_descriptions = Map.empty, tag_bundle_descriptions = []\<rparr>"
  let ?bdA = "XStruct [(''name'', XString ''A''),
                           (''layout'', XArray [XStruct [(''id'', XInt 7), (''size'', XDouble (1 / 10))],
                                                XStruct [(''id'', XInt 1), (''size'', XDouble (1 / 10))]])]"
  let ?bdB = "XStruct [(''name'', XString ''B''),
                           (''layout'', XArray [XStruct [(''id'', XInt 7), (''size'', XDouble (1 / 10)),
                                                         (''x'', XDouble (1 / 2))]])]"
  have h1: "?d \<in> set [?d]" by simp
  have h2: "example_bundle ''B'' [7] \<in> set (tag_bundle_descriptions ?td)" by simp
  have h3: "id2idx (example_bundle ''B'' [7]) (id_tag ?d) \<noteq> None"
    by (simp add: example_bundle_def addMemberTag_def TagBundleDescription_new_def)
  have h3': "id2idx (example_bundle ''A'' [7, 1]) (id_tag ?d) \<noteq> None"
    by (simp add: example_bundle_def addMemberTag_def TagBundleDescription_new_def)
  have pA: "\<not> isl (parse_bundle ?td' example_toRotationMatrix 0 ?bdA)"
    by (simp add: parse_bundle_def parse_member_def xmlRpcGetDoubleWithDefault_def
          findStandaloneTagDescription_def example_toRotationMatrix_def Let_def)
  have pB: "\<not> isl (parse_bundle ?td' example_toRotationMatrix 0 ?bdB)"
    by (simp add: parse_bundle_def parse_member_def xmlRpcGetDoubleWithDefault_def
          findStandaloneTagDescription_def example_toRotationMatrix_def Let_def)
  from shared_member_feeds_every_bundle [OF h1 h2 h3, of example_collaborators example_header
         1 1 0 0 _ ?td' example_toRotationMatrix "[?bdA, ?bdB]"] pA pB
  have load: "\<not> isl (parseTagBundles ?td' example_toRotationMatrix (XArray [?bdA, ?bdB]))"
    by simp
  have run: "array_detections (estimate_poses ?td example_collaborators example_header 1 1 0 0 [?d])
       = [\<lparr>ids = [7, 1], sizes = [1 / 10, 1 / 10],
           pose = \<lparr>header = example_header, position = (4, 4, 1), orientation = (0, 0, 0, 1)\<rparr>\<rparr>,
          \<lparr>ids = [7], sizes = [1 / 10],
           pose = \<lparr>header = example_header, position = (4, 4, 1), orientation = (0, 0, 0, 1)\<rparr>\<rparr>]"
    by (simp add: frame_defs)
  from h1 h2 h3 h3' run load show ?thesis by blast
qed

end
